theory Spec2Isabelle
  imports Complex_Main
begin

section \<open>Tensors and the tensor operations the critics use\<close>

text \<open>
  The critics of \<^verbatim>\<open>utils/critics.py\<close> compute on two-dimensional tensors of shape
  (batch, features). A tensor is modelled by its number of columns together with the
  list of its rows; the number of columns is kept apart so that a tensor with no rows
  still has a width. Entries are mathematical reals: rounding of floating-point
  arithmetic is not modelled. Sizes, counts and agent indices are natural numbers.
  Every exception the Python raises is a value \<open>Inl e\<close> of the result type.

  The attention of \<^verbatim>\<open>AttentionCritic\<close> divides by the square root of the key width; for
  keys of width 0 the code divides zero by zero and goes on with entries that are NaN.
  From that division on the entries are therefore reals or NaN, \<open>real option\<close> with
  \<open>None\<close> for NaN, and the tensor type is polymorphic in its entries.
\<close>

datatype error =
  AssertionError | ZeroDivisionError | IndexError | AttributeError | RuntimeError | ValueError

definition ebind :: "error + 'a \<Rightarrow> ('a \<Rightarrow> error + 'b) \<Rightarrow> error + 'b" where
  "ebind m f = (case m of Inl e \<Rightarrow> Inl e | Inr x \<Rightarrow> f x)"

text \<open>A list comprehension whose element expression can raise: the first exception ends it.\<close>

fun emap :: "('a \<Rightarrow> error + 'b) \<Rightarrow> 'a list \<Rightarrow> error + 'b list" where
  "emap f [] = Inr []"
| "emap f (x # xs) = ebind (f x) (\<lambda>y. ebind (emap f xs) (\<lambda>ys. Inr (y # ys)))"

datatype 'a tensor = Mat (ncols: nat) (rows: "'a list list")

type_synonym mat = "real tensor"

type_synonym xreal = "real option"

type_synonym xmat = "xreal tensor"

abbreviation nrows :: "'a tensor \<Rightarrow> nat" where
  "nrows m \<equiv> length (rows m)"

definition wf_mat :: "'a tensor \<Rightarrow> bool" where
  "wf_mat m = list_all (\<lambda>r. length r = ncols m) (rows m)"

definition same_shape :: "'a tensor \<Rightarrow> 'a tensor \<Rightarrow> bool" where
  "same_shape x y = (nrows x = nrows y \<and> ncols x = ncols y)"

text \<open>\<^verbatim>\<open>torch.cat(ts, dim=1)\<close>: the list must be non-empty and the row counts equal.\<close>

fun hcat :: "'a tensor \<Rightarrow> 'a tensor list \<Rightarrow> error + 'a tensor" where
  "hcat x [] = Inr x"
| "hcat x (y # ys) =
     (if nrows x = nrows y
      then hcat (Mat (ncols x + ncols y) (map2 (@) (rows x) (rows y))) ys
      else Inl RuntimeError)"

definition cat_dim1 :: "'a tensor list \<Rightarrow> error + 'a tensor" where
  "cat_dim1 ts = (case ts of [] \<Rightarrow> Inl RuntimeError | x # xs \<Rightarrow> hcat x xs)"

definition map_mat :: "('a \<Rightarrow> 'b) \<Rightarrow> 'a tensor \<Rightarrow> 'b tensor" where
  "map_mat f x = Mat (ncols x) (map (map f) (rows x))"

definition relu :: "mat \<Rightarrow> mat" where
  "relu x = map_mat (\<lambda>v. max 0 v) x"

text \<open>\<^verbatim>\<open>nn.LeakyReLU()\<close> with its default negative slope 0.01.\<close>

definition LeakyReLU :: "mat \<Rightarrow> mat" where
  "LeakyReLU x = map_mat (\<lambda>v. if 0 \<le> v then v else v / 100) x"

subsection \<open>Parameters and linear layers\<close>

text \<open>
  A parameter holds its value and its gradient; \<^verbatim>\<open>p.grad\<close> is \<^verbatim>\<open>None\<close> until a backward
  pass has stored one.
\<close>

record 'a param =
  data :: 'a
  grad :: "'a option"

text \<open>
  \<^verbatim>\<open>nn.Linear(in_features, out_features, bias)\<close>: the weight has shape
  (out_features, in_features), the bias, when present, length out_features.
\<close>

record linear =
  weight :: "mat param"
  bias :: "real list param option"

definition in_features :: "linear \<Rightarrow> nat" where
  "in_features l = ncols (data (weight l))"

definition out_features :: "linear \<Rightarrow> nat" where
  "out_features l = nrows (data (weight l))"

definition wf_linear :: "linear \<Rightarrow> bool" where
  "wf_linear l =
     (wf_mat (data (weight l)) \<and>
      (case bias l of None \<Rightarrow> True | Some b \<Rightarrow> length (data b) = out_features l))"

definition dot :: "real list \<Rightarrow> real list \<Rightarrow> real" where
  "dot u v = sum_list (map2 (*) u v)"

definition bias_vec :: "linear \<Rightarrow> real list" where
  "bias_vec l = (case bias l of None \<Rightarrow> replicate (out_features l) 0 | Some b \<Rightarrow> data b)"

text \<open>Applying a linear layer: \<open>x W\<^sup>T + b\<close>, a shape error when the width of \<open>x\<close> is not in_features.\<close>

definition Linear_forward :: "linear \<Rightarrow> mat \<Rightarrow> error + mat" where
  "Linear_forward l x =
     (if ncols x = in_features l
      then Inr (Mat (out_features l)
             (map (\<lambda>r. map2 (+) (map (dot r) (rows (data (weight l)))) (bias_vec l)) (rows x)))
      else Inl RuntimeError)"

text \<open>
  Construction draws the initial entries from the random generator. The generator is an
  infinite tape of samples; drawing returns the samples and the rest of the tape.
\<close>

type_synonym rng = "nat \<Rightarrow> real"

definition draw_vec :: "nat \<Rightarrow> rng \<Rightarrow> real list \<times> rng" where
  "draw_vec n g = (map g [0..<n], \<lambda>k. g (k + n))"

definition draw_mat :: "nat \<Rightarrow> nat \<Rightarrow> rng \<Rightarrow> mat \<times> rng" where
  "draw_mat r c g =
     (Mat c (map (\<lambda>i. map (\<lambda>j. g (i * c + j)) [0..<c]) [0..<r]), \<lambda>k. g (k + r * c))"

definition Linear_init :: "nat \<Rightarrow> nat \<Rightarrow> bool \<Rightarrow> rng \<Rightarrow> linear \<times> rng" where
  "Linear_init n_in n_out with_bias g =
     (let (w, g1) = draw_mat n_out n_in g in
      if with_bias
      then (let (b, g2) = draw_vec n_out g1 in
            (\<lparr>weight = \<lparr>data = w, grad = None\<rparr>, bias = Some \<lparr>data = b, grad = None\<rparr>\<rparr>, g2))
      else (\<lparr>weight = \<lparr>data = w, grad = None\<rparr>, bias = None\<rparr>, g1))"

text \<open>
  Layers that compose: every layer is well formed and its input width is the width
  produced before it.
\<close>

fun chain :: "nat \<Rightarrow> linear list \<Rightarrow> nat \<Rightarrow> bool" where
  "chain n_in [] n_out = (n_in = n_out)"
| "chain n_in (l # ls) n_out = (wf_linear l \<and> in_features l = n_in \<and> chain (out_features l) ls n_out)"

section \<open>The strain networks\<close>

text \<open>
  A strain is the list of its linear layers. \<^verbatim>\<open>strain_params\<close>, \<^verbatim>\<open>selector_params\<close> and
  \<^verbatim>\<open>selector_layers\<close> hold the same layer objects again and are read off the strains.
\<close>

type_synonym strain = "linear list"

fun mk_layers :: "nat \<Rightarrow> nat \<Rightarrow> nat \<Rightarrow> rng \<Rightarrow> linear list \<times> rng" where
  "mk_layers 0 n_in n_out g = ([], g)"
| "mk_layers (Suc k) n_in n_out g =
     (let (s, g1) = Linear_init n_in n_out True g;
          (ss, g2) = mk_layers k n_in n_out g1
      in (s # ss, g2))"

text \<open>
  The body of the loop \<^verbatim>\<open>for w, d in zip(widths, hidden_layers)\<close>. For \<open>d = 0\<close> the
  range \<^verbatim>\<open>range(d-1)\<close> is empty, as for \<open>d = 1\<close>.
\<close>

definition mk_strain :: "nat \<Rightarrow> nat \<Rightarrow> nat \<Rightarrow> nat \<Rightarrow> rng \<Rightarrow> strain \<times> rng" where
  "mk_strain input_dim output_dim w d g =
     (let (s0, g1) = Linear_init input_dim w True g;
          (hs, g2) = mk_layers (d - 1) w w g1;
          (sl, g3) = Linear_init w output_dim True g2
      in (s0 # hs @ [sl], g3))"

fun mk_strains :: "nat \<Rightarrow> nat \<Rightarrow> (nat \<times> nat) list \<Rightarrow> rng \<Rightarrow> strain list \<times> rng" where
  "mk_strains input_dim output_dim [] g = ([], g)"
| "mk_strains input_dim output_dim ((w, d) # wds) g =
     (let (st, g1) = mk_strain input_dim output_dim w d g;
          (sts, g2) = mk_strains input_dim output_dim wds g1
      in (st # sts, g2))"

record SelectiveAttentionNetwork =
  strains :: "strain list"
  selector_input_dim :: nat
  selector_output_dim :: nat
  selector :: "linear list"

text \<open>
  \<^verbatim>\<open>SelectiveAttentionNetwork.__init__\<close>. The argument \<^verbatim>\<open>selector_width\<close> is overwritten by
  \<^verbatim>\<open>selector_input_dim\<close> before its first use.
\<close>

definition SelectiveAttentionNetwork_init ::
  "nat \<Rightarrow> nat \<Rightarrow> nat list \<Rightarrow> nat list \<Rightarrow> nat \<Rightarrow> nat \<Rightarrow> rng
     \<Rightarrow> error + (SelectiveAttentionNetwork \<times> rng)" where
  "SelectiveAttentionNetwork_init input_dim output_dim widths hidden_layers
       selector_width selector_depth g =
     (if \<not> 1 \<le> selector_depth then Inl AssertionError
      else if length widths \<noteq> length hidden_layers then Inl AssertionError
      else
        (let (sts, g1) = mk_strains input_dim output_dim (zip widths hidden_layers) g;
             sid = input_dim + output_dim * length widths;
             sod = length widths;
             selector_width' = sid;
             (s0, g2) = Linear_init sid selector_width' True g1;
             (hs, g3) = mk_layers (selector_depth - 1) selector_width' selector_width' g2;
             (sl, g4) = Linear_init sid sod True g3
         in Inr (\<lparr>strains = sts, selector_input_dim = sid, selector_output_dim = sod,
                   selector = s0 # hs @ [sl]\<rparr>, g4)))"

record AttentionNetwork =
  an_strains :: "strain list"

definition AttentionNetwork_init ::
  "nat \<Rightarrow> nat \<Rightarrow> nat list \<Rightarrow> nat list \<Rightarrow> nat \<Rightarrow> nat \<Rightarrow> rng
     \<Rightarrow> error + (AttentionNetwork \<times> rng)" where
  "AttentionNetwork_init input_dim output_dim widths hidden_layers
       selector_width selector_depth g =
     (if \<not> 1 \<le> selector_depth then Inl AssertionError
      else if length widths \<noteq> length hidden_layers then Inl AssertionError
      else
        (let (sts, g1) = mk_strains input_dim output_dim (zip widths hidden_layers) g
         in Inr (\<lparr>an_strains = sts\<rparr>, g1)))"

subsection \<open>Forward passes of the strain networks\<close>

text \<open>The loop \<^verbatim>\<open>for layer in strain[:-1]: x = layer(x); x = activation(x)\<close>.\<close>

fun hidden_pass :: "linear list \<Rightarrow> mat \<Rightarrow> error + mat" where
  "hidden_pass [] x = Inr x"
| "hidden_pass (l # ls) x = ebind (Linear_forward l x) (\<lambda>y. hidden_pass ls (relu y))"

text \<open>
  One strain (and likewise the selector, which is run by the same loop): the hidden loop,
  then \<^verbatim>\<open>strain[-1](x)\<close>, which raises on an empty list.
\<close>

definition strain_forward :: "linear list \<Rightarrow> mat \<Rightarrow> error + mat" where
  "strain_forward st inp =
     (if st = [] then Inl IndexError
      else ebind (hidden_pass (butlast st) inp) (\<lambda>x. Linear_forward (last st) x))"

text \<open>\<^verbatim>\<open>nn.Softmax(dim=0)\<close> on a (batch, n) tensor normalises every column over the batch.\<close>

definition Softmax_dim0 :: "mat \<Rightarrow> mat" where
  "Softmax_dim0 x =
     Mat (ncols x)
       (map (\<lambda>r. map (\<lambda>j. exp (r ! j) / sum_list (map (\<lambda>r'. exp (r' ! j)) (rows x)))
                  [0..<ncols x])
            (rows x))"

text \<open>\<^verbatim>\<open>t[:, i:i+1]\<close> and \<^verbatim>\<open>t.repeat(1, k)\<close>.\<close>

definition slice_col :: "mat \<Rightarrow> nat \<Rightarrow> mat" where
  "slice_col x i = Mat (min 1 (ncols x - i)) (map (\<lambda>r. take 1 (drop i r)) (rows x))"

definition repeat_cols :: "nat \<Rightarrow> mat \<Rightarrow> mat" where
  "repeat_cols k x = Mat (k * ncols x) (map (\<lambda>r. concat (replicate k r)) (rows x))"

text \<open>
  Elementwise binary operations broadcast: two sizes are compatible when they are equal
  or one of them is 1, and a dimension of size 1 is read at index 0.
\<close>

definition bdim :: "nat \<Rightarrow> nat \<Rightarrow> nat option" where
  "bdim a b = (if a = b then Some a else if a = 1 then Some b else if b = 1 then Some a else None)"

definition bget :: "'a tensor \<Rightarrow> nat \<Rightarrow> nat \<Rightarrow> 'a" where
  "bget x i j = rows x ! (if nrows x = 1 then 0 else i) ! (if ncols x = 1 then 0 else j)"

definition broadcast2 :: "(real \<Rightarrow> real \<Rightarrow> real) \<Rightarrow> mat \<Rightarrow> mat \<Rightarrow> error + mat" where
  "broadcast2 f x y =
     (case bdim (nrows x) (nrows y) of
        None \<Rightarrow> Inl RuntimeError
      | Some r \<Rightarrow>
          (case bdim (ncols x) (ncols y) of
             None \<Rightarrow> Inl RuntimeError
           | Some c \<Rightarrow>
               Inr (Mat c (map (\<lambda>i. map (\<lambda>j. f (bget x i j) (bget y i j)) [0..<c]) [0..<r]))))"

text \<open>
  Python's \<^verbatim>\<open>sum(outs)\<close> adds from the left, starting at the integer 0, which broadcasts
  against a tensor as a tensor with the single entry 0 does.
\<close>

fun sum_from :: "mat \<Rightarrow> mat list \<Rightarrow> error + mat" where
  "sum_from acc [] = Inr acc"
| "sum_from acc (t # ts) = ebind (broadcast2 (+) acc t) (\<lambda>a. sum_from a ts)"

definition py_sum :: "mat list \<Rightarrow> error + mat" where
  "py_sum ts = sum_from (Mat 1 [[0]]) ts"

text \<open>
  \<^verbatim>\<open>SelectiveAttentionNetwork.forward\<close> up to the selector's scores: the strain outputs,
  their concatenation with the input, the selector and its softmax.
\<close>

definition selector_scores :: "SelectiveAttentionNetwork \<Rightarrow> mat \<Rightarrow> error + (mat list \<times> mat)" where
  "selector_scores net inp =
     ebind (emap (\<lambda>st. strain_forward st inp) (strains net)) (\<lambda>strain_outputs.
     ebind (cat_dim1 strain_outputs) (\<lambda>strain_outs.
     ebind (cat_dim1 [strain_outs, inp]) (\<lambda>selector_input.
     ebind (strain_forward (selector net) selector_input) (\<lambda>x.
     Inr (strain_outputs, Softmax_dim0 x)))))"

text \<open>The body of the loop \<^verbatim>\<open>for i in range(len(strain_outputs))\<close>.\<close>

definition scored_out :: "mat list \<Rightarrow> mat \<Rightarrow> nat \<Rightarrow> error + mat" where
  "scored_out strain_outputs scores i =
     (let score = repeat_cols 5 (slice_col scores i);
          out = strain_outputs ! i
      in broadcast2 (*) out score)"

definition SelectiveAttentionNetwork_forward :: "SelectiveAttentionNetwork \<Rightarrow> mat \<Rightarrow> error + mat" where
  "SelectiveAttentionNetwork_forward net inp =
     ebind (selector_scores net inp) (\<lambda>(strain_outputs, scores).
     ebind (emap (scored_out strain_outputs scores) [0..<length strain_outputs]) (\<lambda>outs.
     py_sum outs))"

text \<open>\<^verbatim>\<open>torch.stack(ts, dim=0).sum(0)\<close>: the list must be non-empty and of one shape.\<close>

definition stack_sum0 :: "mat list \<Rightarrow> error + mat" where
  "stack_sum0 ts =
     (case ts of
        [] \<Rightarrow> Inl RuntimeError
      | t # ts' \<Rightarrow>
          if list_all (same_shape t) ts'
          then Inr (Mat (ncols t)
                 (map (\<lambda>i. map (\<lambda>j. sum_list (map (\<lambda>s. rows s ! i ! j) ts)) [0..<ncols t])
                      [0..<nrows t]))
          else Inl RuntimeError)"

definition AttentionNetwork_forward :: "AttentionNetwork \<Rightarrow> mat \<Rightarrow> error + mat" where
  "AttentionNetwork_forward net inp =
     ebind (emap (\<lambda>st. strain_forward st inp) (an_strains net)) stack_sum0"

text \<open>
  The strain as the documentation describes it: a feed-forward pass through the layers
  with a ReLU after every layer except the last.
\<close>

fun relu_chain :: "linear list \<Rightarrow> mat \<Rightarrow> error + mat" where
  "relu_chain [] x = Inl IndexError"
| "relu_chain [l] x = Linear_forward l x"
| "relu_chain (l # ls) x = ebind (Linear_forward l x) (\<lambda>y. relu_chain ls (relu y))"

text \<open>A linear layer with the given weight rows and bias, for concrete examples.\<close>

definition Linear_of :: "real list list \<Rightarrow> real list \<Rightarrow> linear" where
  "Linear_of w b =
     \<lparr>weight = \<lparr>data = Mat (case w of [] \<Rightarrow> 0 | r # rs \<Rightarrow> length r) w, grad = None\<rparr>,
      bias = Some \<lparr>data = b, grad = None\<rparr>\<rparr>"

section \<open>The attention critic\<close>

subsection \<open>Modules\<close>

text \<open>
  \<^verbatim>\<open>nn.BatchNorm1d(n, affine=False)\<close> has no parameters, only its running statistics and
  the training flag. In training mode a batch of exactly one row is refused and the batch
  statistics are used; in evaluation mode the running statistics are. The update of the
  running statistics by a training-mode call does not enter any output of that call and
  is not tracked.
\<close>

record BatchNorm1d =
  num_features :: nat
  running_mean :: "real list"
  running_var :: "real list"
  training :: bool

definition BatchNorm1d_init :: "nat \<Rightarrow> BatchNorm1d" where
  "BatchNorm1d_init n =
     \<lparr>num_features = n, running_mean = replicate n 0, running_var = replicate n 1,
      training = True\<rparr>"

definition column :: "mat \<Rightarrow> nat \<Rightarrow> real list" where
  "column x j = map (\<lambda>r. r ! j) (rows x)"

definition mean :: "real list \<Rightarrow> real" where
  "mean xs = sum_list xs / real (length xs)"

definition BatchNorm1d_forward :: "BatchNorm1d \<Rightarrow> mat \<Rightarrow> error + mat" where
  "BatchNorm1d_forward bn x =
     (if training bn \<and> nrows x = 1 then Inl ValueError
      else if ncols x \<noteq> num_features bn then Inl RuntimeError
      else Inr (Mat (ncols x)
             (map (\<lambda>r. map (\<lambda>j.
                     let m = (if training bn then mean (column x j) else running_mean bn ! j);
                         v = (if training bn
                              then mean (map (\<lambda>a. (a - mean (column x j))\<^sup>2) (column x j))
                              else running_var bn ! j)
                     in (r ! j - m) / sqrt (v + 1 / 100000))
                   [0..<ncols x])
                (rows x))))"

text \<open>
  The encoders are \<^verbatim>\<open>nn.Sequential\<close>s of an optional batch norm, a linear layer and a
  LeakyReLU; a critic head is linear, LeakyReLU, linear; a value extractor is linear,
  LeakyReLU; key and selector extractors are linear layers without bias.
\<close>

record encoder =
  enc_bn :: "BatchNorm1d option"
  enc_fc1 :: linear

record critic_head =
  critic_fc1 :: linear
  critic_fc2 :: linear

definition encoder_forward :: "encoder \<Rightarrow> mat \<Rightarrow> error + mat" where
  "encoder_forward e x =
     ebind (case enc_bn e of None \<Rightarrow> Inr x | Some bn \<Rightarrow> BatchNorm1d_forward bn x) (\<lambda>x1.
     ebind (Linear_forward (enc_fc1 e) x1) (\<lambda>x2.
     Inr (LeakyReLU x2)))"

definition value_extractor_forward :: "linear \<Rightarrow> mat \<Rightarrow> error + mat" where
  "value_extractor_forward v x = ebind (Linear_forward v x) (\<lambda>y. Inr (LeakyReLU y))"

record AttentionCritic =
  sa_sizes :: "(nat \<times> nat) list"
  nagents :: nat
  attend_heads :: nat
  critic_encoders :: "encoder list"
  critics :: "critic_head list"
  state_encoders :: "encoder list"
  key_extractors :: "linear list"
  selector_extractors :: "linear list"
  value_extractors :: "linear list"

subsection \<open>Construction\<close>

definition mk_encoder :: "nat \<Rightarrow> nat \<Rightarrow> bool \<Rightarrow> rng \<Rightarrow> encoder \<times> rng" where
  "mk_encoder idim hidden_dim norm_in g =
     (let (fc, g1) = Linear_init idim hidden_dim True g
      in (\<lparr>enc_bn = (if norm_in then Some (BatchNorm1d_init idim) else None), enc_fc1 = fc\<rparr>,
          g1))"

text \<open>The loop \<^verbatim>\<open>for sdim, adim in sa_sizes\<close>.\<close>

fun mk_agents ::
  "(nat \<times> nat) list \<Rightarrow> nat \<Rightarrow> bool \<Rightarrow> rng
     \<Rightarrow> (encoder list \<times> critic_head list \<times> encoder list) \<times> rng" where
  "mk_agents [] hidden_dim norm_in g = (([], [], []), g)"
| "mk_agents ((sdim, adim) # rest) hidden_dim norm_in g =
     (let idim = sdim + adim;
          odim = adim;
          (encoder, g1) = mk_encoder idim hidden_dim norm_in g;
          (fc1, g2) = Linear_init (2 * hidden_dim) hidden_dim True g1;
          (fc2, g3) = Linear_init hidden_dim odim True g2;
          critic = \<lparr>critic_fc1 = fc1, critic_fc2 = fc2\<rparr>;
          (state_encoder, g4) = mk_encoder sdim hidden_dim norm_in g3;
          ((encs, crits, s_encs), g5) = mk_agents rest hidden_dim norm_in g4
      in ((encoder # encs, critic # crits, state_encoder # s_encs), g5))"

text \<open>The loop \<^verbatim>\<open>for i in range(attend_heads)\<close>.\<close>

fun mk_heads ::
  "nat \<Rightarrow> nat \<Rightarrow> nat \<Rightarrow> rng \<Rightarrow> (linear list \<times> linear list \<times> linear list) \<times> rng" where
  "mk_heads 0 hidden_dim attend_dim g = (([], [], []), g)"
| "mk_heads (Suc n) hidden_dim attend_dim g =
     (let (k, g1) = Linear_init hidden_dim attend_dim False g;
          (s, g2) = Linear_init hidden_dim attend_dim False g1;
          (v, g3) = Linear_init hidden_dim attend_dim True g2;
          ((ks, ss, vs), g4) = mk_heads n hidden_dim attend_dim g3
      in ((k # ks, s # ss, v # vs), g4))"

text \<open>
  \<^verbatim>\<open>AttentionCritic.__init__\<close>. The remainder \<^verbatim>\<open>hidden_dim % attend_heads\<close> is computed
  before the assertion compares it with 0, and raises for a zero divisor.
\<close>

definition AttentionCritic_init ::
  "(nat \<times> nat) list \<Rightarrow> nat \<Rightarrow> bool \<Rightarrow> nat \<Rightarrow> rng \<Rightarrow> error + (AttentionCritic \<times> rng)" where
  "AttentionCritic_init sizes hidden_dim norm_in heads g =
     (if heads = 0 then Inl ZeroDivisionError
      else if hidden_dim mod heads \<noteq> 0 then Inl AssertionError
      else
        (let ((encs, crits, s_encs), g1) = mk_agents sizes hidden_dim norm_in g;
             attend_dim = hidden_dim div heads;
             ((ks, ss, vs), g2) = mk_heads heads hidden_dim attend_dim g1
         in Inr (\<lparr>sa_sizes = sizes, nagents = length sizes, attend_heads = heads,
                   critic_encoders = encs, critics = crits, state_encoders = s_encs,
                   key_extractors = ks, selector_extractors = ss, value_extractors = vs\<rparr>,
                 g2)))"

subsection \<open>Scaling the shared gradients\<close>

text \<open>
  \<^verbatim>\<open>p.grad.data.mul_(1. / self.nagents)\<close> for one parameter: \<^verbatim>\<open>p.grad\<close> is read first
  (an AttributeError when it is \<^verbatim>\<open>None\<close>), then the factor is computed (a
  ZeroDivisionError when there are no agents), then the gradient is scaled in place.
\<close>

definition scale_mat_param :: "nat \<Rightarrow> mat param \<Rightarrow> error + mat param" where
  "scale_mat_param n p =
     (case grad p of
        None \<Rightarrow> Inl AttributeError
      | Some gr \<Rightarrow>
          if n = 0 then Inl ZeroDivisionError
          else Inr (p\<lparr>grad := Some (map_mat (\<lambda>v. v * (1 / real n)) gr)\<rparr>))"

definition scale_vec_param :: "nat \<Rightarrow> real list param \<Rightarrow> error + real list param" where
  "scale_vec_param n p =
     (case grad p of
        None \<Rightarrow> Inl AttributeError
      | Some gr \<Rightarrow>
          if n = 0 then Inl ZeroDivisionError
          else Inr (p\<lparr>grad := Some (map (\<lambda>v. v * (1 / real n)) gr)\<rparr>))"

text \<open>The parameters of a linear layer are its weight, then its bias.\<close>

definition scale_linear :: "nat \<Rightarrow> linear \<Rightarrow> error + linear" where
  "scale_linear n l =
     ebind (scale_mat_param n (weight l)) (\<lambda>w.
     ebind (case bias l of
              None \<Rightarrow> Inr None
            | Some b \<Rightarrow> ebind (scale_vec_param n b) (\<lambda>b'. Inr (Some b'))) (\<lambda>b.
     Inr (l\<lparr>weight := w, bias := b\<rparr>)))"

definition scale_encoder :: "nat \<Rightarrow> encoder \<Rightarrow> error + encoder" where
  "scale_encoder n e = ebind (scale_linear n (enc_fc1 e)) (\<lambda>fc. Inr (e\<lparr>enc_fc1 := fc\<rparr>))"

text \<open>
  \<^verbatim>\<open>scale_shared_grads\<close> walks \<^verbatim>\<open>shared_modules\<close> in order: key extractors, selector
  extractors, value extractors, critic encoders. No parameter object occurs twice among
  the modules, so the in-place updates are modelled on the values. When a step raises,
  the model returns the exception only.
\<close>

definition scale_shared_grads :: "AttentionCritic \<Rightarrow> error + AttentionCritic" where
  "scale_shared_grads c =
     ebind (emap (scale_linear (nagents c)) (key_extractors c)) (\<lambda>ks.
     ebind (emap (scale_linear (nagents c)) (selector_extractors c)) (\<lambda>ss.
     ebind (emap (scale_linear (nagents c)) (value_extractors c)) (\<lambda>vs.
     ebind (emap (scale_encoder (nagents c)) (critic_encoders c)) (\<lambda>es.
     Inr (c\<lparr>key_extractors := ks, selector_extractors := ss, value_extractors := vs,
             critic_encoders := es\<rparr>)))))"

text \<open>
  What the documentation of \<^verbatim>\<open>scale_shared_grads\<close> asks of one layer: the values stay, and
  every gradient is the old one times \<open>1 / n\<close>.
\<close>

definition grads_scaled :: "nat \<Rightarrow> linear \<Rightarrow> linear \<Rightarrow> bool" where
  "grads_scaled n l l' =
     (data (weight l') = data (weight l) \<and>
      (case grad (weight l) of
         None \<Rightarrow> False
       | Some gr \<Rightarrow> grad (weight l') = Some (map_mat (\<lambda>v. 1 / real n * v) gr)) \<and>
      (case bias l of
         None \<Rightarrow> bias l' = None
       | Some b \<Rightarrow>
           (case bias l' of
              None \<Rightarrow> False
            | Some b' \<Rightarrow>
                data b' = data b \<and>
                (case grad b of
                   None \<Rightarrow> False
                 | Some gr \<Rightarrow> grad b' = Some (map (\<lambda>v. 1 / real n * v) gr)))))"

definition has_grads :: "linear \<Rightarrow> bool" where
  "has_grads l =
     (grad (weight l) \<noteq> None \<and> (case bias l of None \<Rightarrow> True | Some b \<Rightarrow> grad b \<noteq> None))"

text \<open>A critic for two agents after a backward pass, for concrete examples.\<close>

definition param_of :: "'a \<Rightarrow> 'a \<Rightarrow> 'a param" where
  "param_of v g = \<lparr>data = v, grad = Some g\<rparr>"

definition example_critic :: AttentionCritic where
  "example_critic =
     (let enc = \<lparr>enc_bn = None,
                  enc_fc1 = \<lparr>weight = param_of (Mat 2 [[1, 1]]) (Mat 2 [[2, 8]]),
                             bias = Some (param_of [0] [10])\<rparr>\<rparr>;
          s_enc = \<lparr>enc_bn = None, enc_fc1 = Linear_of [[1]] [0]\<rparr>;
          head = \<lparr>critic_fc1 = Linear_of [[1, 1]] [0], critic_fc2 = Linear_of [[1]] [0]\<rparr>
      in \<lparr>sa_sizes = [(1, 1), (1, 1)], nagents = 2, attend_heads = 1,
           critic_encoders = [enc, enc], critics = [head, head], state_encoders = [s_enc, s_enc],
           key_extractors = [\<lparr>weight = param_of (Mat 1 [[1]]) (Mat 1 [[4]]), bias = None\<rparr>],
           selector_extractors = [\<lparr>weight = param_of (Mat 1 [[1]]) (Mat 1 [[3]]), bias = None\<rparr>],
           value_extractors = [\<lparr>weight = param_of (Mat 1 [[1]]) (Mat 1 [[6]]),
                                bias = Some (param_of [0] [2])\<rparr>]\<rparr>)"

subsection \<open>The forward pass of the attention critic\<close>

definition py_index :: "'a list \<Rightarrow> nat \<Rightarrow> error + 'a" where
  "py_index xs i = (if i < length xs then Inr (xs ! i) else Inl IndexError)"

text \<open>The comprehension \<^verbatim>\<open>[k for j, k in enumerate(xs) if j != a_i]\<close>.\<close>

definition others :: "nat \<Rightarrow> 'a list \<Rightarrow> 'a list" where
  "others a_i xs = map snd (filter (\<lambda>(j, k). j \<noteq> a_i) (enumerate 0 xs))"

text \<open>\<^verbatim>\<open>torch.stack\<close> accepts a non-empty list of tensors of one shape.\<close>

definition stackable :: "'a tensor list \<Rightarrow> bool" where
  "stackable ts = (case ts of [] \<Rightarrow> False | t # ts' \<Rightarrow> list_all (same_shape t) ts')"

definition brow :: "'a tensor \<Rightarrow> nat \<Rightarrow> 'a list" where
  "brow x b = rows x ! (if nrows x = 1 then 0 else b)"

text \<open>
  The three-dimensional tensors of the attention have shape (batch, 1, others); they are
  modelled by the (batch, others) matrix. For the selector \<open>sel\<close> of the agent,
  \<^verbatim>\<open>selector.view(selector.shape[0], 1, -1)\<close>
  raises on an empty batch, \<^verbatim>\<open>torch.stack(keys)\<close> on an empty or ragged list, and the
  batched \<^verbatim>\<open>matmul\<close> when the widths differ or the batch sizes do not broadcast. Entry
  (b, j) of the logits is the dot product of row b of the selector with row b of key j.
\<close>

definition attend_logits_of :: "mat \<Rightarrow> mat list \<Rightarrow> error + mat" where
  "attend_logits_of sel keys =
     (if nrows sel = 0 then Inl RuntimeError
      else if \<not> stackable keys then Inl RuntimeError
      else if ncols sel \<noteq> ncols (hd keys) then Inl RuntimeError
      else (case bdim (nrows sel) (nrows (hd keys)) of
              None \<Rightarrow> Inl RuntimeError
            | Some B \<Rightarrow>
                Inr (Mat (length keys)
                  (map (\<lambda>b. map (\<lambda>k. dot (brow sel b) (brow k b)) keys) [0..<B]))))"

text \<open>
  Arithmetic on entries that can be NaN: a NaN operand makes the result NaN, also in a
  product with 0 and in a sum.
\<close>

definition xadd :: "xreal \<Rightarrow> xreal \<Rightarrow> xreal" where
  "xadd a b = (case a of None \<Rightarrow> None | Some x \<Rightarrow> map_option (\<lambda>y. x + y) b)"

definition xmul :: "xreal \<Rightarrow> xreal \<Rightarrow> xreal" where
  "xmul a b = (case a of None \<Rightarrow> None | Some x \<Rightarrow> map_option (\<lambda>y. x * y) b)"

definition xsum :: "xreal list \<Rightarrow> xreal" where
  "xsum xs = map_option sum_list (those xs)"

text \<open>
  \<^verbatim>\<open>attend_logits / np.sqrt(keys[0].shape[1])\<close>, for logits \<open>x\<close> and key width \<open>d\<close>. For
  keys of width 0 the selector has width 0 too, every logit is a sum over no products,
  that is 0, and the divisor is 0: the quotient of every entry is NaN, and no exception
  is raised.
\<close>

definition scale_logits :: "mat \<Rightarrow> nat \<Rightarrow> xmat" where
  "scale_logits x d =
     (if d = 0 then map_mat (\<lambda>v. None) x
      else map_mat (\<lambda>v. Some (v / sqrt (real d))) x)"

text \<open>
  \<^verbatim>\<open>F.softmax(x, dim=2)\<close>: every row is normalised over the other agents; a row that
  holds a NaN is NaN throughout.
\<close>

definition softmax_rows :: "xmat \<Rightarrow> xmat" where
  "softmax_rows x =
     Mat (ncols x)
       (map (\<lambda>r. case those r of
                    None \<Rightarrow> map (\<lambda>v. None) r
                  | Some vs \<Rightarrow> map (\<lambda>v. Some (exp v / sum_list (map exp vs))) vs)
            (rows x))"

text \<open>\<^verbatim>\<open>(torch.stack(values).permute(1, 2, 0) * attend_weights).sum(dim=2)\<close>.\<close>

definition weighted_values :: "mat list \<Rightarrow> xmat \<Rightarrow> error + xmat" where
  "weighted_values vals w =
     (if \<not> stackable vals then Inl RuntimeError
      else (case bdim (nrows (hd vals)) (nrows w) of
              None \<Rightarrow> Inl RuntimeError
            | Some B \<Rightarrow>
                (case bdim (length vals) (ncols w) of
                   None \<Rightarrow> Inl RuntimeError
                 | Some N \<Rightarrow>
                     Inr (Mat (ncols (hd vals))
                       (map (\<lambda>b. map (\<lambda>c.
                               xsum (map (\<lambda>j.
                                  xmul (Some (brow (vals ! (if length vals = 1 then 0 else j)) b ! c))
                                       (bget w b j))
                                 [0..<N]))
                             [0..<ncols (hd vals)])
                          [0..<B])))))"

text \<open>
  The body of the loop over the agents, for one head: lines 129 to 138. The weighted
  values and the weights can hold NaN, the logits cannot.
\<close>

definition attend :: "nat \<Rightarrow> mat list \<Rightarrow> mat list \<Rightarrow> mat \<Rightarrow> error + (xmat \<times> mat \<times> xmat)" where
  "attend a_i curr_head_keys curr_head_values sel =
     (let keys = others a_i curr_head_keys;
          vals = others a_i curr_head_values
      in ebind (attend_logits_of sel keys) (\<lambda>attend_logits.
         let scaled_attend_logits = scale_logits attend_logits (ncols (hd keys));
             attend_weights = softmax_rows scaled_attend_logits
         in ebind (weighted_values vals attend_weights) (\<lambda>other_values.
            Inr (other_values, attend_logits, attend_weights))))"

text \<open>The three lists of per-agent lists that the loops append to.\<close>

record attn =
  other_all_values :: "xmat list list"
  all_attend_logits :: "mat list list"
  all_attend_probs :: "xmat list list"

definition append_at :: "nat \<Rightarrow> 'a \<Rightarrow> 'a list list \<Rightarrow> 'a list list" where
  "append_at i x xss = xss[i := xss ! i @ [x]]"

text \<open>The lists before the first head, lines 121 to 123.\<close>

definition attn_init :: "nat list \<Rightarrow> attn" where
  "attn_init agents =
     \<lparr>other_all_values = replicate (length agents) [],
      all_attend_logits = replicate (length agents) [],
      all_attend_probs = replicate (length agents) []\<rparr>"

text \<open>\<^verbatim>\<open>for i, a_i, selector in zip(range(len(agents)), agents, curr_head_selectors)\<close>.\<close>

fun attend_agents :: "(nat \<times> nat \<times> mat) list \<Rightarrow> mat list \<Rightarrow> mat list \<Rightarrow> attn \<Rightarrow> error + attn" where
  "attend_agents [] ks vs st = Inr st"
| "attend_agents ((i, a_i, sel) # rest) ks vs st =
     ebind (attend a_i ks vs sel) (\<lambda>(other_values, attend_logits, attend_weights).
     attend_agents rest ks vs
       \<lparr>other_all_values = append_at i other_values (other_all_values st),
        all_attend_logits = append_at i attend_logits (all_attend_logits st),
        all_attend_probs = append_at i attend_weights (all_attend_probs st)\<rparr>)"

text \<open>The loop over the heads, \<^verbatim>\<open>zip(all_head_keys, all_head_values, all_head_selectors)\<close>.\<close>

fun attend_all_heads ::
  "nat list \<Rightarrow> (mat list \<times> mat list \<times> mat list) list \<Rightarrow> attn \<Rightarrow> error + attn" where
  "attend_all_heads agents [] st = Inr st"
| "attend_all_heads agents ((ks, vs, sels) # heads) st =
     ebind (attend_agents (zip [0..<length agents] (zip agents sels)) ks vs st)
       (attend_all_heads agents heads)"

text \<open>
  The first part of \<^verbatim>\<open>AttentionCritic.forward\<close>, lines 106 to 141. First the step from
  the encodings to the attention, lines 113 to 141: the keys, values and selectors of
  every head, then the loops. Then the whole part, which returns the state encodings and
  the three lists.
\<close>

definition attention_of_encodings ::
  "AttentionCritic \<Rightarrow> mat list \<Rightarrow> mat list \<Rightarrow> nat list \<Rightarrow> error + attn" where
  "attention_of_encodings c sa_encodings s_encodings agents =
     ebind (emap (\<lambda>k_ext. emap (Linear_forward k_ext) sa_encodings)
              (key_extractors c)) (\<lambda>all_head_keys.
     ebind (emap (\<lambda>v_ext. emap (value_extractor_forward v_ext) sa_encodings)
              (value_extractors c)) (\<lambda>all_head_values.
     ebind (emap (\<lambda>sel_ext. emap (Linear_forward sel_ext)
                     (map snd (filter (\<lambda>(i, enc). i \<in> set agents) (enumerate 0 s_encodings))))
              (selector_extractors c)) (\<lambda>all_head_selectors.
     attend_all_heads agents
       (zip all_head_keys (zip all_head_values all_head_selectors))
       (attn_init agents))))"

definition forward_attention ::
  "AttentionCritic \<Rightarrow> (mat \<times> mat) list \<Rightarrow> nat list \<Rightarrow> error + (mat list \<times> attn)" where
  "forward_attention c inps agents =
     (let states = map fst inps in
      ebind (emap (\<lambda>(s, a). cat_dim1 [s, a]) inps) (\<lambda>inps'.
      ebind (emap (\<lambda>(encoder, inp). encoder_forward encoder inp)
               (zip (critic_encoders c) inps')) (\<lambda>sa_encodings.
      ebind (emap (\<lambda>a_i. ebind (py_index (state_encoders c) a_i) (\<lambda>enc.
                          ebind (py_index states a_i) (\<lambda>s. encoder_forward enc s)))
               agents) (\<lambda>s_encodings.
      ebind (attention_of_encodings c sa_encodings s_encodings agents) (\<lambda>st.
      Inr (s_encodings, st))))))"

text \<open>
  \<^verbatim>\<open>(-((probs + 1e-8).log() * probs).squeeze().sum(1).mean())\<close>, computed for every head
  whether or not a logger is given. \<^verbatim>\<open>squeeze()\<close> drops every dimension of size 1 of the
  (batch, 1, others) tensor, and \<^verbatim>\<open>sum(1)\<close> raises unless two dimensions remain.
\<close>

definition head_entropy :: "xmat \<Rightarrow> error + xreal" where
  "head_entropy probs =
     (if nrows probs = 1 \<or> ncols probs = 1 then Inl IndexError
      else Inr (map_option
             (\<lambda>rs. - mean (map (\<lambda>r. sum_list (map (\<lambda>p. ln (p + 1 / 10 ^ 8) * p) r)) rs))
             (those (map those (rows probs)))))"

text \<open>\<^verbatim>\<open>t.max(dim=1, keepdim=True)[1]\<close>: per row the index of the first largest entry.\<close>

fun argmax_from :: "nat \<Rightarrow> real \<Rightarrow> nat \<Rightarrow> real list \<Rightarrow> nat" where
  "argmax_from best v i [] = best"
| "argmax_from best v i (y # ys) =
     (if v < y then argmax_from i y (Suc i) ys else argmax_from best v (Suc i) ys)"

definition argmax_dim1 :: "mat \<Rightarrow> error + nat list" where
  "argmax_dim1 x =
     (if ncols x = 0 then Inl IndexError
      else Inr (map (\<lambda>r. argmax_from 0 (hd r) 1 (tl r)) (rows x)))"

text \<open>\<^verbatim>\<open>t.gather(1, idx)\<close> with a one-column index.\<close>

definition gather_dim1 :: "'a tensor \<Rightarrow> nat list \<Rightarrow> error + 'a tensor" where
  "gather_dim1 x idx =
     (if nrows x < length idx then Inl RuntimeError
      else if \<not> list_all (\<lambda>j. j < ncols x) idx then Inl RuntimeError
      else Inr (Mat 1 (map (\<lambda>(r, j). [r ! j]) (zip (rows x) idx))))"

definition mean_all :: "mat \<Rightarrow> real" where
  "mean_all x = sum_list (concat (rows x)) / real (nrows x * ncols x)"

text \<open>
  What the call returns for one agent: the entries appended to \<^verbatim>\<open>agent_rets\<close>, in order.
  A list of exactly one entry is replaced by the entry.
\<close>

datatype 'a ret_item =
  Q_value "'a tensor" | All_Q "'a tensor" | Regs real | Attend "'a tensor list"

datatype 'a one_or_list = One 'a | Many "'a list"

fun unwrap_single :: "'a list \<Rightarrow> 'a one_or_list" where
  "unwrap_single [x] = One x"
| "unwrap_single xs = Many xs"

text \<open>
  The critic head, \<^verbatim>\<open>nn.Sequential\<close> of linear, LeakyReLU, linear, is applied to the state
  encoding joined with the weighted values, a tensor that can hold NaN: the linear layers
  and the LeakyReLU compute as on numbers, with NaN propagating.
\<close>

definition xLinear_forward :: "linear \<Rightarrow> xmat \<Rightarrow> error + xmat" where
  "xLinear_forward l x =
     (if ncols x = in_features l
      then Inr (Mat (out_features l)
             (map (\<lambda>r. map2 xadd
                          (map (\<lambda>w. xsum (map2 xmul r (map Some w))) (rows (data (weight l))))
                          (map Some (bias_vec l)))
                  (rows x)))
      else Inl RuntimeError)"

definition xLeakyReLU :: "xmat \<Rightarrow> xmat" where
  "xLeakyReLU x = map_mat (map_option (\<lambda>v. if 0 \<le> v then v else v / 100)) x"

definition xcritic_forward :: "critic_head \<Rightarrow> xmat \<Rightarrow> error + xmat" where
  "xcritic_forward c x =
     ebind (xLinear_forward (critic_fc1 c) x) (\<lambda>h.
     xLinear_forward (critic_fc2 c) (xLeakyReLU h))"

text \<open>
  The body of the loop \<^verbatim>\<open>for i, a_i in enumerate(agents)\<close>, lines 145 to 172. The call is
  modelled with \<^verbatim>\<open>logger=None\<close>; the conversion \<^verbatim>\<open>np.array(...)\<close> of the returned
  weights, which depends on whether the tensors track gradients, is not modelled.
\<close>

definition agent_rets ::
  "AttentionCritic \<Rightarrow> mat list \<Rightarrow> mat list \<Rightarrow> attn \<Rightarrow> bool \<Rightarrow> bool \<Rightarrow> bool \<Rightarrow> bool
     \<Rightarrow> nat \<times> nat \<Rightarrow> error + xreal ret_item one_or_list" where
  "agent_rets c actions s_encodings st return_q return_all_q regularize return_attend ia =
     (case ia of (i, a_i) \<Rightarrow>
      ebind (emap head_entropy (all_attend_probs st ! i)) (\<lambda>head_entropies.
      ebind (cat_dim1 (map_mat Some (s_encodings ! i) # other_all_values st ! i)) (\<lambda>critic_in.
      ebind (py_index (critics c) a_i) (\<lambda>critic.
      ebind (xcritic_forward critic critic_in) (\<lambda>all_q.
      ebind (py_index actions a_i) (\<lambda>act.
      ebind (argmax_dim1 act) (\<lambda>int_acs.
      ebind (gather_dim1 all_q int_acs) (\<lambda>q.
      Inr (unwrap_single
        ((if return_q then [Q_value q] else []) @
         (if return_all_q then [All_Q all_q] else []) @
         (if regularize
          then [Regs (1 / 1000 *
                  sum_list (map (\<lambda>logit. mean_all (map_mat (\<lambda>v. v\<^sup>2) logit))
                              (all_attend_logits st ! i)))]
          else []) @
         (if return_attend then [Attend (all_attend_probs st ! i)] else [])))))))))))"

text \<open>\<^verbatim>\<open>AttentionCritic.forward\<close>; \<open>None\<close> for \<^verbatim>\<open>agents\<close> stands for all agents.\<close>

definition AttentionCritic_forward ::
  "AttentionCritic \<Rightarrow> (mat \<times> mat) list \<Rightarrow> nat list option \<Rightarrow> bool \<Rightarrow> bool \<Rightarrow> bool \<Rightarrow> bool
     \<Rightarrow> error + xreal ret_item one_or_list one_or_list" where
  "AttentionCritic_forward c inps agents_arg return_q return_all_q regularize return_attend =
     (let agents = (case agents_arg of
                      None \<Rightarrow> [0..<length (critic_encoders c)]
                    | Some ags \<Rightarrow> ags);
          actions = map snd inps
      in ebind (forward_attention c inps agents) (\<lambda>(s_encodings, st).
         ebind (emap (agent_rets c actions s_encodings st
                        return_q return_all_q regularize return_attend)
                  (enumerate 0 agents)) (\<lambda>all_rets.
         Inr (unwrap_single all_rets))))"

text \<open>A tensor of weights whose rows are numbers, non-negative, and sum to 1.\<close>

definition normalised :: "xmat \<Rightarrow> bool" where
  "normalised w =
     list_all (\<lambda>r. case those r of
                     None \<Rightarrow> False
                   | Some ps \<Rightarrow> list_all (\<lambda>p. 0 \<le> p) ps \<and> sum_list ps = 1)
       (rows w)"

text \<open>
  An invariant of both loops, for \<open>n\<close> encoded agents: every weight tensor appended at a
  position \<open>i\<close> of the agents list is normalised and has one column for every index
  other than \<open>agents ! i\<close>.
\<close>

definition weights_over :: "nat list \<Rightarrow> nat \<Rightarrow> attn \<Rightarrow> bool" where
  "weights_over agents n st =
     list_all (\<lambda>i. list_all (\<lambda>w. normalised w \<and> wf_mat w \<and>
                                   ncols w = length (others (agents ! i) [0..<n]))
                    (all_attend_probs st ! i))
       [0..<length agents]"

text \<open>
  Two runs of the loops agree on agent \<open>a\<close> when, at every position of the agents list
  that requests \<open>a\<close>, the three lists hold the same entries.
\<close>

definition agree_on :: "nat \<Rightarrow> nat list \<Rightarrow> attn \<Rightarrow> attn \<Rightarrow> bool" where
  "agree_on a agents st st' =
     list_all (\<lambda>i. agents ! i = a \<longrightarrow>
                 other_all_values st ! i = other_all_values st' ! i \<and>
                 all_attend_logits st ! i = all_attend_logits st' ! i \<and>
                 all_attend_probs st ! i = all_attend_probs st' ! i)
       [0..<length agents]"

definition attn_len :: "nat \<Rightarrow> attn \<Rightarrow> bool" where
  "attn_len n st =
     (length (other_all_values st) = n \<and> length (all_attend_logits st) = n \<and>
      length (all_attend_probs st) = n)"

text \<open>
  Heads that differ at most in the key and the value of agent \<open>a\<close>: the other agents'
  keys, the other agents' values and the selectors are the same.
\<close>

definition differ_at ::
  "nat \<Rightarrow> (mat list \<times> mat list \<times> mat list) \<Rightarrow> (mat list \<times> mat list \<times> mat list) \<Rightarrow> bool" where
  "differ_at a h h' =
     (case h of (ks, vs, sels) \<Rightarrow>
        (case h' of (ks', vs', sels') \<Rightarrow>
           others a ks' = others a ks \<and> others a vs' = others a vs \<and> sels' = sels))"

section \<open>The selective attention critic\<close>

datatype CriticNetwork = Selective SelectiveAttentionNetwork | Plain AttentionNetwork

record SelectiveAttentionCritic =
  sac_sa_sizes :: "(nat \<times> nat) list"
  sac_nagents :: nat
  full_input_size :: nat
  with_selector :: bool
  sac_critics :: "CriticNetwork list"

text \<open>
  The loop \<^verbatim>\<open>for sdim, adim in sa_sizes\<close> of \<^verbatim>\<open>SelectiveAttentionCritic.__init__\<close>: one
  critic network per agent, on the full joint input, with one output per action.
\<close>

fun mk_critics ::
  "(nat \<times> nat) list \<Rightarrow> nat \<Rightarrow> nat list \<Rightarrow> nat list \<Rightarrow> nat \<Rightarrow> nat \<Rightarrow> bool \<Rightarrow> rng
     \<Rightarrow> error + (CriticNetwork list \<times> rng)" where
  "mk_critics [] fis widths hidden_layers sw sd ws g = Inr ([], g)"
| "mk_critics ((sdim, adim) # rest) fis widths hidden_layers sw sd ws g =
     (let odim = adim in
      ebind (if ws
             then ebind (SelectiveAttentionNetwork_init fis odim widths hidden_layers sw sd g)
                    (\<lambda>(n, g1). Inr (Selective n, g1))
             else ebind (AttentionNetwork_init fis odim widths hidden_layers sw sd g)
                    (\<lambda>(n, g1). Inr (Plain n, g1))) (\<lambda>(critic, g1).
      ebind (mk_critics rest fis widths hidden_layers sw sd ws g1) (\<lambda>(cs, g2).
      Inr (critic # cs, g2))))"

definition SelectiveAttentionCritic_init ::
  "(nat \<times> nat) list \<Rightarrow> nat list \<Rightarrow> nat list \<Rightarrow> nat \<Rightarrow> nat \<Rightarrow> bool \<Rightarrow> rng
     \<Rightarrow> error + (SelectiveAttentionCritic \<times> rng)" where
  "SelectiveAttentionCritic_init sizes widths hidden_layers selector_width selector_depth ws g =
     (let fis = sum_list (map (\<lambda>(sdim, adim). sdim + adim) sizes) in
      ebind (mk_critics sizes fis widths hidden_layers selector_width selector_depth ws g)
        (\<lambda>(cs, g1).
      Inr (\<lparr>sac_sa_sizes = sizes, sac_nagents = length sizes, full_input_size = fis,
             with_selector = ws, sac_critics = cs\<rparr>, g1)))"

definition CriticNetwork_forward :: "CriticNetwork \<Rightarrow> mat \<Rightarrow> error + mat" where
  "CriticNetwork_forward n x =
     (case n of
        Selective s \<Rightarrow> SelectiveAttentionNetwork_forward s x
      | Plain p \<Rightarrow> AttentionNetwork_forward p x)"

text \<open>
  \<^verbatim>\<open>get_selector_layers\<close> returns the weights of the first layer of every strain; only the
  selective network has the method.
\<close>

definition get_selector_layers :: "CriticNetwork \<Rightarrow> error + mat list" where
  "get_selector_layers n =
     (case n of
        Selective s \<Rightarrow> Inr (map (\<lambda>st. data (weight (hd st))) (strains s))
      | Plain p \<Rightarrow> Inl AttributeError)"

text \<open>\<^verbatim>\<open>critic_in = torch.cat(tuple(inps), dim=1)\<close>, line 394.\<close>

definition joint_input :: "mat list \<Rightarrow> error + mat" where
  "joint_input inps' = cat_dim1 inps'"

text \<open>
  The body of the loop \<^verbatim>\<open>for i, a_i in enumerate(agents)\<close>, lines 393 to 424;
  \<^verbatim>\<open>return_attend\<close> and \<^verbatim>\<open>logger\<close> add nothing.
\<close>

definition sac_agent_rets ::
  "SelectiveAttentionCritic \<Rightarrow> mat list \<Rightarrow> mat list \<Rightarrow> bool \<Rightarrow> bool \<Rightarrow> bool
     \<Rightarrow> nat \<Rightarrow> error + real ret_item one_or_list" where
  "sac_agent_rets c actions inps' return_q return_all_q regularize a_i =
     ebind (joint_input inps') (\<lambda>critic_in.
     ebind (py_index (sac_critics c) a_i) (\<lambda>critic.
     ebind (CriticNetwork_forward critic critic_in) (\<lambda>all_q.
     ebind (py_index actions a_i) (\<lambda>act.
     ebind (argmax_dim1 act) (\<lambda>int_acs.
     ebind (gather_dim1 all_q int_acs) (\<lambda>q.
     ebind (if regularize
            then ebind (get_selector_layers critic) (\<lambda>selectors.
                 Inr [Regs (sum_list (map (\<lambda>w. sum_list (concat (rows w))) selectors))])
            else Inr []) (\<lambda>regs.
     Inr (unwrap_single
       ((if return_q then [Q_value q] else []) @
        (if return_all_q then [All_Q all_q] else []) @ regs)))))))))"

definition SelectiveAttentionCritic_forward ::
  "SelectiveAttentionCritic \<Rightarrow> (mat \<times> mat) list \<Rightarrow> nat list option \<Rightarrow> bool \<Rightarrow> bool \<Rightarrow> bool
     \<Rightarrow> error + real ret_item one_or_list one_or_list" where
  "SelectiveAttentionCritic_forward c inps agents_arg return_q return_all_q regularize =
     (let agents = (case agents_arg of None \<Rightarrow> [0..<sac_nagents c] | Some ags \<Rightarrow> ags);
          actions = map snd inps
      in ebind (emap (\<lambda>(s, a). cat_dim1 [s, a]) inps) (\<lambda>inps'.
         ebind (emap (sac_agent_rets c actions inps' return_q return_all_q regularize) agents)
           (\<lambda>all_rets.
         Inr (unwrap_single all_rets))))"

section \<open>Basic facts about results and shapes\<close>

lemma ebind_Inl [simp]: "ebind (Inl e) f = Inl e"
  by (simp add: ebind_def)

lemma ebind_Inr [simp]: "ebind (Inr x) f = f x"
  by (simp add: ebind_def)

lemma ebind_eq_Inr: "ebind m f = Inr y \<longleftrightarrow> (\<exists>x. m = Inr x \<and> f x = Inr y)"
  by (cases m) simp_all

lemma emap_length: "emap f xs = Inr ys \<Longrightarrow> length ys = length xs"
  by (induction xs arbitrary: ys) (auto simp: ebind_eq_Inr)

lemma emap_nth: "emap f xs = Inr ys \<Longrightarrow> i < length xs \<Longrightarrow> f (xs ! i) = Inr (ys ! i)"
proof (induction xs arbitrary: ys i)
  case Nil
  then show ?case by simp
next
  case (Cons x xs)
  then show ?case
    by (cases i) (auto simp: ebind_eq_Inr)
qed

lemma emap_all_Inr:
  "(\<And>x. x \<in> set xs \<Longrightarrow> f x = Inr (h x)) \<Longrightarrow> emap f xs = Inr (map h xs)"
  by (induction xs) simp_all

lemma wf_mat_Mat [simp]: "wf_mat (Mat c rs) \<longleftrightarrow> (\<forall>r\<in>set rs. length r = c)"
  by (simp add: wf_mat_def list_all_iff)

lemma wf_mat_row: "wf_mat x \<Longrightarrow> i < nrows x \<Longrightarrow> length (rows x ! i) = ncols x"
  by (simp add: wf_mat_def list_all_length)

subsection \<open>Shapes of layer outputs\<close>

lemma Linear_forward_shape:
  assumes "wf_linear l" "ncols x = in_features l"
  shows "\<exists>y. Linear_forward l x = Inr y \<and> ncols y = out_features l \<and>
           nrows y = nrows x \<and> wf_mat y"
proof -
  have "length (bias_vec l) = out_features l"
    using assms(1) by (auto simp: bias_vec_def wf_linear_def split: option.splits)
  then show ?thesis
    using assms(2) by (simp add: Linear_forward_def out_features_def)
qed

lemma Linear_forward_ncols: "Linear_forward l x = Inr y \<Longrightarrow> ncols y = out_features l"
  by (auto simp: Linear_forward_def split: if_splits)

lemma relu_shape [simp]: "ncols (relu x) = ncols x" "nrows (relu x) = nrows x"
  by (simp_all add: relu_def map_mat_def)

lemma relu_wf [simp]: "wf_mat (relu x) = wf_mat x"
  by (cases x) (simp add: relu_def map_mat_def)

lemma chain_append:
  "chain a (xs @ ys) c \<longleftrightarrow> (\<exists>b. chain a xs b \<and> chain b ys c)"
  by (induction xs arbitrary: a) auto

lemma hidden_pass_shape:
  "chain a ls b \<Longrightarrow> wf_mat x \<Longrightarrow> ncols x = a \<Longrightarrow>
     \<exists>y. hidden_pass ls x = Inr y \<and> ncols y = b \<and> nrows y = nrows x \<and> wf_mat y"
proof (induction ls arbitrary: a x)
  case Nil
  then show ?case by simp
next
  case (Cons l ls)
  from Cons.prems obtain y where y: "Linear_forward l x = Inr y" "ncols y = out_features l"
    "nrows y = nrows x" "wf_mat y"
    using Linear_forward_shape [of l x] by auto
  from Cons.IH [of "out_features l" "relu y"] Cons.prems y show ?case
    by simp
qed

lemma strain_forward_shape:
  assumes "chain a st b" "st \<noteq> []" "wf_mat x" "ncols x = a"
  shows "\<exists>y. strain_forward st x = Inr y \<and> ncols y = b \<and> nrows y = nrows x \<and> wf_mat y"
proof -
  from assms(2) have st: "st = butlast st @ [last st]"
    by simp
  with assms(1) obtain c where c: "chain a (butlast st) c" "chain c [last st] b"
    by (metis chain_append)
  from hidden_pass_shape [OF c(1) assms(3,4)] obtain y
    where y: "hidden_pass (butlast st) x = Inr y" "ncols y = c" "nrows y = nrows x" "wf_mat y"
    by blast
  from c(2) have "wf_linear (last st)" "in_features (last st) = c" "out_features (last st) = b"
    by simp_all
  with Linear_forward_shape [of "last st" y] y assms(2) show ?thesis
    by (auto simp: strain_forward_def)
qed

lemma Linear_init_shape:
  "Linear_init a b wb g = (l, g') \<Longrightarrow> wf_linear l \<and> in_features l = a \<and> out_features l = b"
  by (auto simp: Linear_init_def draw_mat_def draw_vec_def Let_def wf_linear_def in_features_def
      out_features_def split: if_splits)

lemma mk_layers_chain: "mk_layers k a a g = (ls, g') \<Longrightarrow> chain a ls a"
proof (induction k arbitrary: g ls g')
  case 0
  then show ?case by simp
next
  case (Suc k)
  then show ?case
    by (auto split: prod.splits dest: Linear_init_shape)
qed

lemma mk_strain_chain:
  assumes "mk_strain input_dim output_dim w d g = (st, g')"
  shows "chain input_dim st output_dim \<and> st \<noteq> []"
proof -
  from assms obtain s0 g1 hs g2 sl g3
    where s0: "Linear_init input_dim w True g = (s0, g1)"
      and hs: "mk_layers (d - 1) w w g1 = (hs, g2)"
      and sl: "Linear_init w output_dim True g2 = (sl, g3)"
      and st: "st = s0 # hs @ [sl]"
    by (auto simp: mk_strain_def Let_def split: prod.splits)
  from Linear_init_shape [OF s0] Linear_init_shape [OF sl] mk_layers_chain [OF hs]
  show ?thesis
    by (simp add: st chain_append)
qed

lemma mk_strains_chain:
  "mk_strains input_dim output_dim wds g = (sts, g') \<Longrightarrow>
     \<forall>st\<in>set sts. chain input_dim st output_dim \<and> st \<noteq> []"
proof (induction wds arbitrary: g sts g')
  case Nil
  then show ?case by simp
next
  case (Cons wd wds)
  obtain w d where wd: "wd = (w, d)"
    by (cases wd)
  from Cons.prems wd obtain st g1 sts'
    where st: "mk_strain input_dim output_dim w d g = (st, g1)"
      and sts': "mk_strains input_dim output_dim wds g1 = (sts', g')"
      and sts: "sts = st # sts'"
    by (auto split: prod.splits)
  from mk_strain_chain [OF st] Cons.IH [OF sts'] show ?case
    by (simp add: sts)
qed

subsection \<open>Layers on tensors without NaN\<close>

text \<open>On a tensor of numbers the layers that propagate NaN compute what the layers on reals do.\<close>

lemma xdot_Some: "xsum (map2 xmul (map Some r) (map Some w)) = Some (dot r w)"
  by (induction r w rule: list_induct2') (auto simp: xsum_def xmul_def dot_def)

lemma map2_xadd_Some:
  "map2 xadd (map (\<lambda>w. Some (f w)) W) (map Some b) = map Some (map2 (+) (map f W) b)"
  by (induction W b rule: list_induct2') (simp_all add: xadd_def)

lemma xLinear_forward_Some:
  "xLinear_forward l (map_mat Some x) =
     (case Linear_forward l x of Inl e \<Rightarrow> Inl e | Inr y \<Rightarrow> Inr (map_mat Some y))"
  by (simp add: xLinear_forward_def Linear_forward_def map_mat_def xdot_Some map2_xadd_Some)

lemma xLeakyReLU_Some: "xLeakyReLU (map_mat Some x) = map_mat Some (LeakyReLU x)"
  by (simp add: xLeakyReLU_def LeakyReLU_def map_mat_def)

section \<open>Construction of the strain networks\<close>

lemma length_mk_strains:
  "mk_strains input_dim output_dim wds g = (sts, g') \<Longrightarrow> length sts = length wds"
  by (induction wds arbitrary: g sts g') (auto split: prod.splits)

text \<open>
  C8. Constructing a SelectiveAttentionNetwork or an AttentionNetwork raises an
  AssertionError whenever \<open>widths\<close> and \<open>hidden_layers\<close> differ in length; when the
  lengths agree and \<open>selector_depth\<close> is at least 1, construction succeeds and the network
  has exactly one strain per entry of \<open>widths\<close>.
\<close>

theorem strain_network_init_lengths:
  "(length widths \<noteq> length hidden_layers \<longrightarrow>
      SelectiveAttentionNetwork_init input_dim output_dim widths hidden_layers sw sd g
        = Inl AssertionError \<and>
      AttentionNetwork_init input_dim output_dim widths hidden_layers sw sd g
        = Inl AssertionError) \<and>
   (length widths = length hidden_layers \<and> 1 \<le> sd \<longrightarrow>
      (\<exists>net g'. SelectiveAttentionNetwork_init input_dim output_dim widths hidden_layers sw sd g
          = Inr (net, g') \<and> length (strains net) = length widths) \<and>
      (\<exists>net g'. AttentionNetwork_init input_dim output_dim widths hidden_layers sw sd g
          = Inr (net, g') \<and> length (an_strains net) = length widths))"
proof -
  have len: "length sts = length widths"
    if "length widths = length hidden_layers"
      and "mk_strains input_dim output_dim (zip widths hidden_layers) g = (sts, g')"
    for sts g'
    using that length_mk_strains [of input_dim output_dim "zip widths hidden_layers" g sts g']
    by simp
  show ?thesis
    using len
    by (auto simp: SelectiveAttentionNetwork_init_def AttentionNetwork_init_def Let_def
        split: prod.splits)
qed

theorem strain_network_init_lengths_witness:
  "(\<exists>net g'. SelectiveAttentionNetwork_init 2 5 [3, 4] [1, 2] 7 1 (\<lambda>k. 0)
          = Inr (net, g') \<and> length (strains net) = 2) \<and>
   (\<exists>net g'. AttentionNetwork_init 2 5 [3, 4] [1, 2] 7 1 (\<lambda>k. 0)
          = Inr (net, g') \<and> length (an_strains net) = 2) \<and>
   SelectiveAttentionNetwork_init 2 5 [3] [1, 2] 7 1 (\<lambda>k. 0) = Inl AssertionError \<and>
   AttentionNetwork_init 2 5 [3] [1, 2] 7 1 (\<lambda>k. 0) = Inl AssertionError"
  using strain_network_init_lengths [of "[3, 4]" "[1, 2]" 2 5 7 1 "\<lambda>k. 0"]
    strain_network_init_lengths [of "[3]" "[1, 2]" 2 5 7 1 "\<lambda>k. 0"]
  by (simp add: numeral_2_eq_2)

section \<open>The forward pass of SelectiveAttentionNetwork\<close>

lemma emap_exists:
  "(\<And>x. x \<in> set xs \<Longrightarrow> \<exists>y. f x = Inr y \<and> P y) \<Longrightarrow>
     \<exists>ys. emap f xs = Inr ys \<and> length ys = length xs \<and> (\<forall>y\<in>set ys. P y)"
proof (induction xs)
  case Nil
  then show ?case by simp
next
  case (Cons x xs)
  from Cons.prems obtain y where y: "f x = Inr y" "P y"
    by auto
  from Cons obtain ys where "emap f xs = Inr ys" "length ys = length xs" "\<forall>y\<in>set ys. P y"
    by auto
  with y show ?case
    by simp
qed

lemma emap_first_Inl: "xs \<noteq> [] \<Longrightarrow> f (hd xs) = Inl e \<Longrightarrow> emap f xs = Inl e"
  by (cases xs) simp_all

lemma hcat_Inr:
  "hcat x ys = Inr z \<Longrightarrow>
     ncols z = ncols x + sum_list (map ncols ys) \<and> nrows z = nrows x \<and>
     (\<forall>y\<in>set ys. nrows y = nrows x)"
proof (induction ys arbitrary: x)
  case Nil
  then show ?case by simp
next
  case (Cons y ys)
  from Cons.prems have eq: "nrows x = nrows y"
    and rest: "hcat (Mat (ncols x + ncols y) (map2 (@) (rows x) (rows y))) ys = Inr z"
    by (auto split: if_splits)
  from Cons.IH [OF rest] eq show ?case
    by simp
qed

lemma hcat_shape:
  "wf_mat x \<Longrightarrow> (\<forall>y\<in>set ys. wf_mat y \<and> nrows y = nrows x) \<Longrightarrow>
     \<exists>z. hcat x ys = Inr z \<and> wf_mat z"
proof (induction ys arbitrary: x)
  case Nil
  then show ?case by simp
next
  case (Cons y ys)
  let ?x' = "Mat (ncols x + ncols y) (map2 (@) (rows x) (rows y))"
  have "length a + length b = ncols x + ncols y"
    if "(a, b) \<in> set (zip (rows x) (rows y))" for a b
    using Cons.prems set_zip_leftD [OF that] set_zip_rightD [OF that]
    by (simp add: wf_mat_def list_all_iff)
  then have "wf_mat ?x'"
    by auto
  moreover have "\<forall>y'\<in>set ys. wf_mat y' \<and> nrows y' = nrows ?x'"
    using Cons.prems by simp
  ultimately obtain z where "hcat ?x' ys = Inr z" "wf_mat z"
    using Cons.IH [of ?x'] by blast
  then show ?case
    using Cons.prems by simp
qed

lemma cat_dim1_Inr:
  "cat_dim1 ts = Inr z \<Longrightarrow>
     ts \<noteq> [] \<and> ncols z = sum_list (map ncols ts) \<and> (\<forall>t\<in>set ts. nrows t = nrows z)"
  by (cases ts) (auto simp: cat_dim1_def dest: hcat_Inr)

lemma cat_dim1_shape:
  assumes "ts \<noteq> []" "\<forall>t\<in>set ts. wf_mat t \<and> nrows t = n"
  shows "\<exists>z. cat_dim1 ts = Inr z \<and> wf_mat z \<and> nrows z = n \<and>
           ncols z = sum_list (map ncols ts)"
proof -
  from assms(1) obtain x xs where ts: "ts = x # xs"
    by (cases ts) auto
  with assms(2) obtain z where z: "hcat x xs = Inr z" "wf_mat z"
    using hcat_shape [of x xs] by auto
  from hcat_Inr [OF z(1)] z assms(2) show ?thesis
    by (simp add: ts cat_dim1_def)
qed

lemma Softmax_dim0_shape [simp]:
  "ncols (Softmax_dim0 x) = ncols x" "nrows (Softmax_dim0 x) = nrows x"
  "wf_mat (Softmax_dim0 x)"
  by (simp_all add: Softmax_dim0_def)

lemma score_shape:
  assumes "wf_mat s" "i < ncols s"
  shows "ncols (repeat_cols 5 (slice_col s i)) = 5"
    and "nrows (repeat_cols 5 (slice_col s i)) = nrows s"
    and "wf_mat (repeat_cols 5 (slice_col s i))"
  using assms by (auto simp: repeat_cols_def slice_col_def wf_mat_def list_all_iff length_concat
      sum_list_replicate)

lemma bdim_self [simp]: "bdim a a = Some a"
  by (simp add: bdim_def)

lemma bdim_5: "bdim a 5 = (if a = 1 \<or> a = 5 then Some 5 else None)"
  by (simp add: bdim_def)

lemma broadcast2_wf: "broadcast2 f x y = Inr z \<Longrightarrow> wf_mat z"
  by (auto simp: broadcast2_def split: option.splits)

lemma broadcast2_shape:
  "bdim (nrows x) (nrows y) = Some r \<Longrightarrow> bdim (ncols x) (ncols y) = Some c \<Longrightarrow>
     \<exists>z. broadcast2 f x y = Inr z \<and> nrows z = r \<and> ncols z = c \<and> wf_mat z"
  by (simp add: broadcast2_def)

lemma sum_from_shape:
  "\<forall>t\<in>set ts. nrows t = nrows acc \<and> ncols t = ncols acc \<Longrightarrow>
     \<exists>z. sum_from acc ts = Inr z \<and> nrows z = nrows acc \<and> ncols z = ncols acc"
proof (induction ts arbitrary: acc)
  case Nil
  then show ?case by simp
next
  case (Cons t ts)
  from Cons.prems obtain a where a: "broadcast2 (+) acc t = Inr a" "nrows a = nrows acc"
    "ncols a = ncols acc"
    using broadcast2_shape [of acc t "nrows acc" "ncols acc" "(+)"] by auto
  with Cons.IH [of a] Cons.prems show ?case
    by simp
qed

lemma py_sum_shape:
  assumes "ts \<noteq> []" "\<forall>t\<in>set ts. nrows t = r \<and> ncols t = c"
  shows "\<exists>z. py_sum ts = Inr z \<and> nrows z = r \<and> ncols z = c"
proof -
  from assms(1) obtain t ts' where ts: "ts = t # ts'"
    by (cases ts) auto
  have "bdim 1 (nrows t) = Some (nrows t)" "bdim 1 (ncols t) = Some (ncols t)"
    by (simp_all add: bdim_def)
  then obtain a where a: "broadcast2 (+) (Mat 1 [[0]]) t = Inr a" "nrows a = nrows t"
    "ncols a = ncols t"
    using broadcast2_shape [of "Mat 1 [[0]]" t "nrows t" "ncols t" "(+)"] by auto
  with sum_from_shape [of ts' a] assms(2) show ?thesis
    by (auto simp: ts py_sum_def)
qed

lemma SelectiveAttentionNetwork_init_shape:
  assumes "SelectiveAttentionNetwork_init input_dim output_dim widths hidden_layers sw sd g
             = Inr (net, g')"
  shows "length (strains net) = length widths"
    and "\<forall>st\<in>set (strains net). chain input_dim st output_dim \<and> st \<noteq> []"
    and "chain (input_dim + output_dim * length widths) (selector net) (length widths)"
    and "selector net \<noteq> []"
proof -
  let ?sid = "input_dim + output_dim * length widths"
  from assms have len: "length widths = length hidden_layers" and sd: "1 \<le> sd"
    by (auto simp: SelectiveAttentionNetwork_init_def split: if_splits)
  with assms obtain sts g1 s0 g2 hs g3 sl
    where sts: "mk_strains input_dim output_dim (zip widths hidden_layers) g = (sts, g1)"
      and s0: "Linear_init ?sid ?sid True g1 = (s0, g2)"
      and hs: "mk_layers (sd - 1) ?sid ?sid g2 = (hs, g3)"
      and sl: "Linear_init ?sid (length widths) True g3 = (sl, g')"
      and net: "strains net = sts" "selector net = s0 # hs @ [sl]"
    by (auto simp: SelectiveAttentionNetwork_init_def Let_def split: prod.splits)
  show "length (strains net) = length widths"
    using length_mk_strains [OF sts] len by (simp add: net)
  show "\<forall>st\<in>set (strains net). chain input_dim st output_dim \<and> st \<noteq> []"
    using mk_strains_chain [OF sts] by (simp add: net)
  show "chain ?sid (selector net) (length widths)"
    using Linear_init_shape [OF s0] Linear_init_shape [OF sl] mk_layers_chain [OF hs]
    by (simp add: net chain_append)
  show "selector net \<noteq> []"
    by (simp add: net)
qed

lemma selector_scores_shape:
  assumes strains: "strains net \<noteq> []"
      "\<forall>st\<in>set (strains net). chain input_dim st output_dim \<and> st \<noteq> []"
    and sel: "chain (input_dim + output_dim * length (strains net)) (selector net)
        (length (strains net))" "selector net \<noteq> []"
    and inp: "wf_mat inp" "ncols inp = input_dim"
  shows "\<exists>outs scores. selector_scores net inp = Inr (outs, scores) \<and>
      length outs = length (strains net) \<and>
      (\<forall>t\<in>set outs. wf_mat t \<and> nrows t = nrows inp \<and> ncols t = output_dim) \<and>
      wf_mat scores \<and> nrows scores = nrows inp \<and> ncols scores = length (strains net)"
proof -
  let ?n = "length (strains net)"
  let ?P = "\<lambda>t. wf_mat t \<and> nrows t = nrows inp \<and> ncols t = output_dim"
  have "\<exists>y. strain_forward st inp = Inr y \<and> ?P y" if "st \<in> set (strains net)" for st
    using strain_forward_shape [of input_dim st output_dim inp] strains(2) inp that by blast
  then obtain outs where outs: "emap (\<lambda>st. strain_forward st inp) (strains net) = Inr outs"
    "length outs = ?n" "\<forall>t\<in>set outs. ?P t"
    using emap_exists [of "strains net" "\<lambda>st. strain_forward st inp" ?P] by blast
  from outs strains(1) have ne: "outs \<noteq> []"
    by auto
  from outs(3) have "map ncols outs = replicate (length outs) output_dim"
    by (simp add: map_replicate_const [symmetric] cong: map_cong)
  then have widths: "sum_list (map ncols outs) = output_dim * ?n"
    by (simp add: sum_list_replicate outs(2))
  from cat_dim1_shape [OF ne, of "nrows inp"] outs(3) obtain so
    where so: "cat_dim1 outs = Inr so" "wf_mat so" "nrows so = nrows inp"
      "ncols so = output_dim * ?n"
    using widths by auto
  from cat_dim1_shape [of "[so, inp]" "nrows inp"] so inp obtain si
    where si: "cat_dim1 [so, inp] = Inr si" "wf_mat si" "nrows si = nrows inp"
      "ncols si = input_dim + output_dim * ?n"
    by auto
  from strain_forward_shape [OF sel(1) sel(2) si(2) si(4)] obtain x
    where x: "strain_forward (selector net) si = Inr x" "ncols x = ?n" "nrows x = nrows si"
    by blast
  show ?thesis
    using outs so si x by (simp add: selector_scores_def)
qed

lemma selector_scores_Inr:
  assumes "selector_scores net inp = Inr (outs, scores)"
  shows "outs \<noteq> []" and "length outs = length (strains net)"
    and "\<forall>i<length outs. ncols (outs ! i) = out_features (last (strains net ! i))"
proof -
  from assms obtain so where outs: "emap (\<lambda>st. strain_forward st inp) (strains net) = Inr outs"
    and so: "cat_dim1 outs = Inr so"
    by (auto simp: selector_scores_def ebind_eq_Inr)
  show "outs \<noteq> []"
    using cat_dim1_Inr [OF so] by simp
  show len: "length outs = length (strains net)"
    using emap_length [OF outs] .
  show "\<forall>i<length outs. ncols (outs ! i) = out_features (last (strains net ! i))"
  proof (intro allI impI)
    fix i assume "i < length outs"
    with len emap_nth [OF outs, of i] have "strain_forward (strains net ! i) inp = Inr (outs ! i)"
      by simp
    then show "ncols (outs ! i) = out_features (last (strains net ! i))"
      by (auto simp: strain_forward_def ebind_eq_Inr split: if_splits dest: Linear_forward_ncols)
  qed
qed

lemma chain_last: "chain a st b \<Longrightarrow> st \<noteq> [] \<Longrightarrow> out_features (last st) = b"
proof -
  assume c: "chain a st b" and ne: "st \<noteq> []"
  from ne have "st = butlast st @ [last st]"
    by simp
  with c obtain m where "chain m [last st] b"
    by (metis chain_append)
  then show ?thesis
    by simp
qed

lemma strain_forward_ncols:
  "strain_forward st x = Inr y \<Longrightarrow> ncols y = out_features (last st)"
  by (auto simp: strain_forward_def ebind_eq_Inr split: if_splits dest: Linear_forward_ncols)

lemma scored_out_incompatible:
  assumes "ncols (outs ! i) \<noteq> 1" "ncols (outs ! i) \<noteq> 5" "i < ncols scores"
  shows "scored_out outs scores i = Inl RuntimeError"
proof -
  have "ncols (repeat_cols 5 (slice_col scores i)) = 5"
    using assms(3) by (simp add: repeat_cols_def slice_col_def)
  with assms(1,2) have "bdim (ncols (outs ! i)) (ncols (repeat_cols 5 (slice_col scores i))) = None"
    by (simp add: bdim_5)
  then show ?thesis
    by (simp add: scored_out_def broadcast2_def Let_def split: option.splits)
qed

lemma scored_out_compatible:
  assumes "ncols (outs ! i) = 1 \<or> ncols (outs ! i) = 5" "i < ncols scores" "wf_mat scores"
    "nrows (outs ! i) = nrows scores"
  shows "\<exists>z. scored_out outs scores i = Inr z \<and> nrows z = nrows scores \<and> ncols z = 5"
proof -
  let ?score = "repeat_cols 5 (slice_col scores i)"
  have "bdim (ncols (outs ! i)) (ncols ?score) = Some 5"
    using assms(1) score_shape(1) [OF assms(3,2)] by (auto simp: bdim_5)
  moreover have "bdim (nrows (outs ! i)) (nrows ?score) = Some (nrows scores)"
    using assms(4) score_shape(2) [OF assms(3,2)] by simp
  ultimately show ?thesis
    using broadcast2_shape [of "outs ! i" ?score "nrows scores" 5 "(*)"]
    by (auto simp: scored_out_def Let_def)
qed

text \<open>
  C5. Every selector score is repeated to width 5 before it multiplies a strain output
  of width \<open>output_dim\<close>. For a constructed network, an \<open>output_dim\<close> other than 5 and 1
  (1 broadcasts against 5) makes \<open>forward\<close> raise on every input; on an input of the
  network's width, with at least one strain, everything up to the scores succeeds, and
  then either the first scored-output product raises (\<open>output_dim\<close> not 1 or 5) or
  \<open>forward\<close> returns a tensor of width 5.
\<close>

theorem SelectiveAttentionNetwork_forward_width5:
  assumes init: "SelectiveAttentionNetwork_init input_dim output_dim widths hidden_layers sw sd g
             = Inr (net, g')"
  shows "(output_dim \<noteq> 1 \<and> output_dim \<noteq> 5 \<longrightarrow>
            (\<exists>e. SelectiveAttentionNetwork_forward net inp = Inl e)) \<and>
         (widths \<noteq> [] \<and> wf_mat inp \<and> ncols inp = input_dim \<longrightarrow>
            (\<exists>outs scores. selector_scores net inp = Inr (outs, scores) \<and> outs \<noteq> [] \<and>
               (if output_dim = 1 \<or> output_dim = 5
                then \<exists>out. SelectiveAttentionNetwork_forward net inp = Inr out \<and>
                       ncols out = 5 \<and> nrows out = nrows inp
                else scored_out outs scores 0 = Inl RuntimeError \<and>
                     SelectiveAttentionNetwork_forward net inp = Inl RuntimeError)))"
proof (intro conjI impI)
  note sh = SelectiveAttentionNetwork_init_shape [OF init]
  assume bad: "output_dim \<noteq> 1 \<and> output_dim \<noteq> 5"
  show "\<exists>e. SelectiveAttentionNetwork_forward net inp = Inl e"
  proof (cases "selector_scores net inp")
    case (Inl e)
    then show ?thesis
      by (simp add: SelectiveAttentionNetwork_forward_def)
  next
    case (Inr p)
    obtain outs scores where p: "p = (outs, scores)"
      by (cases p)
    note ss = selector_scores_Inr [OF Inr [unfolded p]]
    from ss(1) have l0: "0 < length outs"
      by simp
    with ss(2) have st0: "strains net ! 0 \<in> set (strains net)"
      by (intro nth_mem) simp
    with sh(2) have "out_features (last (strains net ! 0)) = output_dim"
      using chain_last by blast
    with ss(3) l0 have nc: "ncols (outs ! 0) = output_dim"
      by simp
    from Inr p obtain si x where x: "strain_forward (selector net) si = Inr x"
      and scores: "scores = Softmax_dim0 x"
      by (auto simp: selector_scores_def ebind_eq_Inr)
    from strain_forward_ncols [OF x] chain_last [OF sh(3,4)] have "ncols scores = length widths"
      by (simp add: scores)
    with sh(1) ss(2) l0 have "0 < ncols scores"
      by simp
    from scored_out_incompatible [of outs 0 scores] nc bad this
    have "scored_out outs scores 0 = Inl RuntimeError"
      by simp
    then have "emap (scored_out outs scores) [0..<length outs] = Inl RuntimeError"
      using l0 by (intro emap_first_Inl) (simp_all add: hd_upt)
    then show ?thesis
      by (simp add: SelectiveAttentionNetwork_forward_def Inr p)
  qed
next
  note sh = SelectiveAttentionNetwork_init_shape [OF init]
  assume h: "widths \<noteq> [] \<and> wf_mat inp \<and> ncols inp = input_dim"
  let ?n = "length (strains net)"
  from h sh(1) have ne: "strains net \<noteq> []"
    by auto
  from selector_scores_shape [OF ne sh(2) _ sh(4), of inp] sh(1,3) h
  obtain outs scores where ss: "selector_scores net inp = Inr (outs, scores)"
    "length outs = ?n"
    "\<forall>t\<in>set outs. wf_mat t \<and> nrows t = nrows inp \<and> ncols t = output_dim"
    "wf_mat scores" "nrows scores = nrows inp" "ncols scores = ?n"
    by auto
  from ss(2) ne have one: "outs \<noteq> []" and l0: "0 < length outs"
    by auto
  have fwd: "SelectiveAttentionNetwork_forward net inp =
      ebind (emap (scored_out outs scores) [0..<length outs]) py_sum"
    by (simp add: SelectiveAttentionNetwork_forward_def ss(1))
  show "\<exists>outs scores. selector_scores net inp = Inr (outs, scores) \<and> outs \<noteq> [] \<and>
               (if output_dim = 1 \<or> output_dim = 5
                then \<exists>out. SelectiveAttentionNetwork_forward net inp = Inr out \<and>
                       ncols out = 5 \<and> nrows out = nrows inp
                else scored_out outs scores 0 = Inl RuntimeError \<and>
                     SelectiveAttentionNetwork_forward net inp = Inl RuntimeError)"
  proof (cases "output_dim = 1 \<or> output_dim = 5")
    case True
    let ?P = "\<lambda>z. nrows z = nrows inp \<and> ncols z = 5"
    have "\<exists>z. scored_out outs scores i = Inr z \<and> ?P z" if "i \<in> set [0..<length outs]" for i
    proof -
      from that have i: "i < length outs"
        by simp
      then have "outs ! i \<in> set outs"
        by simp
      with ss(3) True have "ncols (outs ! i) = 1 \<or> ncols (outs ! i) = 5"
        "nrows (outs ! i) = nrows scores"
        by (auto simp: ss(5))
      from scored_out_compatible [OF this(1) _ ss(4) this(2)] i ss(2,5,6) show ?thesis
        by simp
    qed
    then obtain zs where zs: "emap (scored_out outs scores) [0..<length outs] = Inr zs"
      "length zs = length [0..<length outs]" "\<forall>z\<in>set zs. ?P z"
      using emap_exists [of "[0..<length outs]" "scored_out outs scores" ?P] by blast
    from zs(2) l0 have "zs \<noteq> []"
      by auto
    from py_sum_shape [OF this zs(3)] obtain out where "py_sum zs = Inr out"
      "nrows out = nrows inp" "ncols out = 5"
      by blast
    with True ss(1) one zs(1) show ?thesis
      by (auto simp: fwd)
  next
    case False
    from l0 ss(3) have "ncols (outs ! 0) = output_dim"
      by simp
    with False l0 ss(2,6) have bad: "scored_out outs scores 0 = Inl RuntimeError"
      by (intro scored_out_incompatible) simp_all
    then have "emap (scored_out outs scores) [0..<length outs] = Inl RuntimeError"
      using l0 by (intro emap_first_Inl) (simp_all add: hd_upt)
    with False ss(1) one bad show ?thesis
      by (auto simp: fwd)
  qed
qed

lemma SelectiveAttentionNetwork_init_Inr:
  "length widths = length hidden_layers \<Longrightarrow> 1 \<le> sd \<Longrightarrow>
     \<exists>net g'. SelectiveAttentionNetwork_init input_dim output_dim widths hidden_layers sw sd g
        = Inr (net, g')"
  by (simp add: SelectiveAttentionNetwork_init_def Let_def split: prod.splits)

theorem SelectiveAttentionNetwork_forward_width5_witness:
  "(\<exists>net g'. SelectiveAttentionNetwork_init 2 3 [4, 4] [1, 2] 7 1 (\<lambda>k. 1) = Inr (net, g') \<and>
      SelectiveAttentionNetwork_forward net (Mat 2 [[1, 2], [3, 4]]) = Inl RuntimeError) \<and>
   (\<exists>net g' out. SelectiveAttentionNetwork_init 2 5 [4, 4] [1, 2] 7 1 (\<lambda>k. 1) = Inr (net, g') \<and>
      SelectiveAttentionNetwork_forward net (Mat 2 [[1, 2], [3, 4]]) = Inr out \<and>
      ncols out = 5 \<and> nrows out = 2)"
proof -
  obtain n3 g3 where n3: "SelectiveAttentionNetwork_init 2 3 [4, 4] [1, 2] 7 1 (\<lambda>k. 1) = Inr (n3, g3)"
    using SelectiveAttentionNetwork_init_Inr [of "[4, 4]" "[1, 2]" 1 2 3 7 "\<lambda>k. 1"] by auto
  obtain n5 g5 where n5: "SelectiveAttentionNetwork_init 2 5 [4, 4] [1, 2] 7 1 (\<lambda>k. 1) = Inr (n5, g5)"
    using SelectiveAttentionNetwork_init_Inr [of "[4, 4]" "[1, 2]" 1 2 5 7 "\<lambda>k. 1"] by auto
  from SelectiveAttentionNetwork_forward_width5 [OF n3, of "Mat 2 [[1, 2], [3, 4]]"]
  have "SelectiveAttentionNetwork_forward n3 (Mat 2 [[1, 2], [3, 4]]) = Inl RuntimeError"
    by auto
  moreover from SelectiveAttentionNetwork_forward_width5 [OF n5, of "Mat 2 [[1, 2], [3, 4]]"]
  have "\<exists>out. SelectiveAttentionNetwork_forward n5 (Mat 2 [[1, 2], [3, 4]]) = Inr out \<and>
      ncols out = 5 \<and> nrows out = 2"
    by auto
  ultimately show ?thesis
    using n3 n5 by blast
qed

section \<open>The forward pass of AttentionNetwork\<close>

lemma strain_forward_relu_chain: "strain_forward st x = relu_chain st x"
proof (induction st x rule: relu_chain.induct)
  case (1 x)
  then show ?case by (simp add: strain_forward_def)
next
  case (2 l x)
  then show ?case by (simp add: strain_forward_def)
next
  case (3 l v va x)
  then show ?case
    by (cases "Linear_forward l x") (simp_all add: strain_forward_def)
qed

lemma stack_sum0_Inr:
  assumes "stack_sum0 ts = Inr out"
  shows "ts \<noteq> [] \<and> list_all (same_shape out) ts \<and>
    (\<forall>i<nrows out. \<forall>j<ncols out. rows out ! i ! j = (\<Sum>s\<leftarrow>ts. rows s ! i ! j))"
proof (cases ts)
  case Nil
  with assms show ?thesis by (simp add: stack_sum0_def)
next
  case (Cons t ts')
  with assms have all: "list_all (same_shape t) ts'"
    and out: "out = Mat (ncols t)
                 (map (\<lambda>i. map (\<lambda>j. sum_list (map (\<lambda>s. rows s ! i ! j) ts)) [0..<ncols t])
                      [0..<nrows t])"
    by (auto simp: stack_sum0_def split: if_splits)
  have so: "same_shape out t"
    by (simp add: out same_shape_def)
  have "list_all (same_shape out) ts'"
    using all so by (auto simp: list_all_iff same_shape_def)
  with so have "list_all (same_shape out) ts"
    by (simp add: Cons)
  moreover have "\<forall>i<nrows out. \<forall>j<ncols out. rows out ! i ! j = (\<Sum>s\<leftarrow>ts. rows s ! i ! j)"
    by (simp add: out)
  ultimately show ?thesis
    by (simp add: Cons)
qed

text \<open>
  C9. AttentionNetwork.forward combines its strains by sum: whenever it returns, every
  strain's feed-forward pass (ReLU after every layer except the last) has returned a
  tensor of the output's shape, and every entry of the output is the sum of the strains'
  entries at that position; no selector weight enters.
\<close>

theorem AttentionNetwork_forward_sum:
  assumes "AttentionNetwork_forward net inp = Inr out"
  shows "\<exists>outs. emap (\<lambda>st. relu_chain st inp) (an_strains net) = Inr outs \<and>
           outs \<noteq> [] \<and> list_all (same_shape out) outs \<and>
           (\<forall>i<nrows out. \<forall>j<ncols out. rows out ! i ! j = (\<Sum>s\<leftarrow>outs. rows s ! i ! j))"
proof -
  from assms obtain outs
    where outs: "emap (\<lambda>st. strain_forward st inp) (an_strains net) = Inr outs"
      and sum: "stack_sum0 outs = Inr out"
    by (auto simp: AttentionNetwork_forward_def ebind_eq_Inr)
  have "emap (\<lambda>st. relu_chain st inp) (an_strains net) = Inr outs"
    using outs by (simp add: strain_forward_relu_chain)
  with stack_sum0_Inr [OF sum] show ?thesis
    by blast
qed

lemma AttentionNetwork_forward_example:
  "AttentionNetwork_forward
      \<lparr>an_strains = [[Linear_of [[1]] [1], Linear_of [[1]] [1]],
                     [Linear_of [[2]] [0], Linear_of [[2]] [0]]]\<rparr>
      (Mat 1 [[2], [- 3]]) = Inr (Mat 1 [[12], [1]])"
  by (simp add: AttentionNetwork_forward_def strain_forward_def Linear_forward_def Linear_of_def
      in_features_def out_features_def bias_vec_def dot_def relu_def map_mat_def
      stack_sum0_def same_shape_def)

theorem AttentionNetwork_forward_sum_witness:
  "AttentionNetwork_forward
      \<lparr>an_strains = [[Linear_of [[1]] [1], Linear_of [[1]] [1]],
                     [Linear_of [[2]] [0], Linear_of [[2]] [0]]]\<rparr>
      (Mat 1 [[2], [- 3]]) = Inr (Mat 1 [[12], [1]]) \<and>
   (\<exists>outs. emap (\<lambda>st. relu_chain st (Mat 1 [[2], [- 3]]))
              [[Linear_of [[1]] [1], Linear_of [[1]] [1]],
               [Linear_of [[2]] [0], Linear_of [[2]] [0]]] = Inr outs \<and>
      (\<Sum>s\<leftarrow>outs. rows s ! 1 ! 0) = 1 \<and> (\<Sum>s\<leftarrow>outs. rows s ! 0 ! 0) = 12)"
proof -
  let ?net = "\<lparr>an_strains = [[Linear_of [[1]] [1], Linear_of [[1]] [1]],
                     [Linear_of [[2]] [0], Linear_of [[2]] [0]]]\<rparr>"
  let ?out = "Mat 1 [[12], [1]] :: mat"
  note ex = AttentionNetwork_forward_example
  from AttentionNetwork_forward_sum [OF ex] obtain outs
    where outs: "emap (\<lambda>st. relu_chain st (Mat 1 [[2], [- 3]])) (an_strains ?net) = Inr outs"
      and sums: "\<forall>i<nrows ?out. \<forall>j<ncols ?out. rows ?out ! i ! j = (\<Sum>s\<leftarrow>outs. rows s ! i ! j)"
    by blast
  from sums [rule_format, of 1 0] have "(\<Sum>s\<leftarrow>outs. rows s ! 1 ! 0) = 1"
    by simp
  moreover from sums [rule_format, of 0 0] have "(\<Sum>s\<leftarrow>outs. rows s ! 0 ! 0) = 12"
    by simp
  ultimately show ?thesis
    using ex outs by auto
qed

section \<open>The selector scores of SelectiveAttentionNetwork\<close>

lemma Softmax_dim0_single_row:
  assumes "nrows x = 1"
  shows "Softmax_dim0 x = Mat (ncols x) [replicate (ncols x) 1]"
proof -
  from assms obtain r where r: "rows x = [r]"
    by (cases "rows x") auto
  show ?thesis
    by (simp add: Softmax_dim0_def r map_replicate_const)
qed

lemma selector_scores_softmax:
  "selector_scores net inp = Inr (outs, scores) \<Longrightarrow> \<exists>x. scores = Softmax_dim0 x"
  by (auto simp: selector_scores_def ebind_eq_Inr)

lemma softmax_sum_over:
  assumes "rs \<noteq> []" "\<And>r. 0 < f r"
  shows "sum_list (map (\<lambda>r. f r / sum_list (map f rs)) rs) = (1 :: real)"
proof -
  let ?S = "sum_list (map f rs)"
  from assms(1) obtain r rs' where rs: "rs = r # rs'"
    by (cases rs) auto
  have "0 \<le> sum_list (map f rs')"
    using assms(2) by (intro sum_list_nonneg) (auto intro: less_imp_le)
  with assms(2) [of r] have pos: "0 < ?S"
    by (simp add: rs add_pos_nonneg)
  have "sum_list (map (\<lambda>r. f r / ?S) rs) = sum_list (map (\<lambda>r. f r * (1 / ?S)) rs)"
    by simp
  also have "\<dots> = ?S * (1 / ?S)"
    by (simp only: sum_list_mult_const)
  also have "\<dots> = 1"
    using pos by simp
  finally show ?thesis .
qed

text \<open>What the selector's softmax does normalise: every column, over the batch.\<close>

lemma Softmax_dim0_column_sum:
  assumes "0 < nrows x" "j < ncols x"
  shows "sum_list (column (Softmax_dim0 x) j) = 1"
proof -
  from assms(1) have ne: "rows x \<noteq> []"
    by auto
  have "column (Softmax_dim0 x) j
      = map (\<lambda>r. exp (r ! j) / sum_list (map (\<lambda>r'. exp (r' ! j)) (rows x))) (rows x)"
    using assms(2) by (simp add: column_def Softmax_dim0_def)
  with softmax_sum_over [OF ne, of "\<lambda>r. exp (r ! j)"] show ?thesis
    by simp
qed

text \<open>
  C3. The selector's softmax runs over dimension 0, the batch. On a batch of one
  element every score is therefore 1, and the scores of that element over the two
  strains of this network sum to 2.
\<close>

theorem selector_scores_batch_of_one:
  "\<exists>net g' outs scores.
      SelectiveAttentionNetwork_init 2 5 [4, 4] [1, 2] 7 1 (\<lambda>k. 1) = Inr (net, g') \<and>
      selector_scores net (Mat 2 [[3, 4]]) = Inr (outs, scores) \<and>
      rows scores = [[1, 1]] \<and> sum_list (rows scores ! 0) = 2"
proof -
  obtain net g' where init:
    "SelectiveAttentionNetwork_init 2 5 [4, 4] [1, 2] 7 1 (\<lambda>k. 1) = Inr (net, g')"
    using SelectiveAttentionNetwork_init_Inr [of "[4, 4]" "[1, 2]" 1 2 5 7 "\<lambda>k. 1"] by auto
  note sh = SelectiveAttentionNetwork_init_shape [OF init]
  from sh(1) have ne: "strains net \<noteq> []"
    by auto
  from selector_scores_shape [OF ne sh(2) _ sh(4), of "Mat 2 [[3, 4]]"] sh(1,3)
  obtain outs scores where ss: "selector_scores net (Mat 2 [[3, 4]]) = Inr (outs, scores)"
    "nrows scores = 1" "ncols scores = 2"
    by auto
  from selector_scores_softmax [OF ss(1)] obtain x where x: "scores = Softmax_dim0 x"
    by blast
  with ss(2,3) have "nrows x = 1" "ncols x = 2"
    by simp_all
  from Softmax_dim0_single_row [OF this(1)] this(2) have "rows scores = [[1, 1]]"
    by (simp add: x numeral_2_eq_2)
  with init ss(1) show ?thesis
    by simp
qed

section \<open>Construction of the attention critic\<close>

lemma mk_heads_shape:
  "mk_heads n hidden_dim attend_dim g = ((ks, ss, vs), g') \<Longrightarrow>
     length ks = n \<and> length ss = n \<and> length vs = n \<and>
     (\<forall>l\<in>set ks \<union> set ss \<union> set vs.
        wf_linear l \<and> in_features l = hidden_dim \<and> out_features l = attend_dim) \<and>
     (\<forall>l\<in>set ks \<union> set ss. bias l = None)"
proof (induction n arbitrary: g ks ss vs g')
  case 0
  then show ?case by simp
next
  case (Suc n)
  from Suc.prems obtain k g1 s g2 v g3 ks' ss' vs'
    where k: "Linear_init hidden_dim attend_dim False g = (k, g1)"
      and s: "Linear_init hidden_dim attend_dim False g1 = (s, g2)"
      and v: "Linear_init hidden_dim attend_dim True g2 = (v, g3)"
      and rest: "mk_heads n hidden_dim attend_dim g3 = ((ks', ss', vs'), g')"
      and eq: "ks = k # ks'" "ss = s # ss'" "vs = v # vs'"
    by (auto simp: Let_def split: prod.splits)
  have "bias k = None" "bias s = None"
    using k s by (auto simp: Linear_init_def Let_def split: prod.splits)
  with Suc.IH [OF rest] Linear_init_shape [OF k] Linear_init_shape [OF s] Linear_init_shape [OF v]
  show ?case
    by (auto simp: eq)
qed

text \<open>
  C7 (as amended). With no attention head the remainder \<open>hidden_dim % attend_heads\<close>
  raises a ZeroDivisionError. With at least one head, construction raises an
  AssertionError exactly when \<open>attend_heads\<close> does not divide \<open>hidden_dim\<close>, and otherwise
  succeeds with \<open>attend_heads\<close> key, selector and value projections, each from width
  \<open>hidden_dim\<close> to width \<open>hidden_dim div attend_heads\<close>.
\<close>

theorem AttentionCritic_init_heads:
  "(heads = 0 \<longrightarrow> AttentionCritic_init sizes hidden_dim norm_in heads g = Inl ZeroDivisionError) \<and>
   (0 < heads \<longrightarrow>
      (AttentionCritic_init sizes hidden_dim norm_in heads g = Inl AssertionError
         \<longleftrightarrow> \<not> heads dvd hidden_dim) \<and>
      (heads dvd hidden_dim \<longrightarrow>
         (\<exists>c g'. AttentionCritic_init sizes hidden_dim norm_in heads g = Inr (c, g') \<and>
            length (key_extractors c) = heads \<and> length (selector_extractors c) = heads \<and>
            length (value_extractors c) = heads \<and>
            (\<forall>l\<in>set (key_extractors c) \<union> set (selector_extractors c) \<union> set (value_extractors c).
               in_features l = hidden_dim \<and> out_features l = hidden_dim div heads))))"
proof (intro conjI impI)
  assume "heads = 0"
  then show "AttentionCritic_init sizes hidden_dim norm_in heads g = Inl ZeroDivisionError"
    by (simp add: AttentionCritic_init_def)
next
  assume "0 < heads"
  then show "AttentionCritic_init sizes hidden_dim norm_in heads g = Inl AssertionError
         \<longleftrightarrow> \<not> heads dvd hidden_dim"
    by (auto simp: AttentionCritic_init_def Let_def dvd_eq_mod_eq_0 split: prod.splits)
next
  assume pos: "0 < heads" and dvd: "heads dvd hidden_dim"
  obtain encs crits s_encs g1 where ag: "mk_agents sizes hidden_dim norm_in g = ((encs, crits, s_encs), g1)"
    by (metis prod_cases3 surj_pair)
  obtain ks ss vs g2 where hd: "mk_heads heads hidden_dim (hidden_dim div heads) g1 = ((ks, ss, vs), g2)"
    by (metis prod_cases3 surj_pair)
  let ?c = "\<lparr>sa_sizes = sizes, nagents = length sizes, attend_heads = heads,
                   critic_encoders = encs, critics = crits, state_encoders = s_encs,
                   key_extractors = ks, selector_extractors = ss, value_extractors = vs\<rparr>"
  have "AttentionCritic_init sizes hidden_dim norm_in heads g = Inr (?c, g2)"
    using pos dvd ag hd by (simp add: AttentionCritic_init_def Let_def dvd_eq_mod_eq_0)
  with mk_heads_shape [OF hd]
  show "\<exists>c g'. AttentionCritic_init sizes hidden_dim norm_in heads g = Inr (c, g') \<and>
            length (key_extractors c) = heads \<and> length (selector_extractors c) = heads \<and>
            length (value_extractors c) = heads \<and>
            (\<forall>l\<in>set (key_extractors c) \<union> set (selector_extractors c) \<union> set (value_extractors c).
               in_features l = hidden_dim \<and> out_features l = hidden_dim div heads)"
    by auto
qed

theorem AttentionCritic_init_heads_witness:
  "AttentionCritic_init [(3, 2), (3, 2)] 32 True 0 (\<lambda>k. 1) = Inl ZeroDivisionError \<and>
   AttentionCritic_init [(3, 2), (3, 2)] 32 True 5 (\<lambda>k. 1) = Inl AssertionError \<and>
   (\<exists>c g'. AttentionCritic_init [(3, 2), (3, 2)] 32 True 4 (\<lambda>k. 1) = Inr (c, g') \<and>
      length (key_extractors c) = 4 \<and>
      (\<forall>l\<in>set (key_extractors c) \<union> set (selector_extractors c) \<union> set (value_extractors c).
               in_features l = 32 \<and> out_features l = 8))"
proof -
  have d: "(4::nat) dvd 32" "\<not> (5::nat) dvd 32"
    by simp_all
  have "(32::nat) div 4 = 8"
    by simp
  with d AttentionCritic_init_heads [of 0 "[(3, 2), (3, 2)]" 32 True "\<lambda>k. 1"]
    AttentionCritic_init_heads [of 5 "[(3, 2), (3, 2)]" 32 True "\<lambda>k. 1"]
    AttentionCritic_init_heads [of 4 "[(3, 2), (3, 2)]" 32 True "\<lambda>k. 1"]
  show ?thesis
    by auto
qed

text \<open>
  The claim as stated fails for zero heads: 32 is not divisible by 0, yet the constructor
  raises a ZeroDivisionError, not an AssertionError.
\<close>

theorem AttentionCritic_init_zero_heads:
  "\<not> (0::nat) dvd 32 \<and>
   AttentionCritic_init [(3, 2), (3, 2)] 32 True 0 (\<lambda>k. 1) \<noteq> Inl AssertionError"
  by (simp add: AttentionCritic_init_def)

section \<open>Scaling the shared gradients\<close>

lemma scale_linear_Inr:
  assumes "scale_linear n l = Inr l'"
  shows "grads_scaled n l l'" and "0 < n"
proof -
  from assms obtain w b where w: "scale_mat_param n (weight l) = Inr w"
    and b: "(case bias l of None \<Rightarrow> Inr None
             | Some b \<Rightarrow> ebind (scale_vec_param n b) (\<lambda>b'. Inr (Some b'))) = Inr b"
    and l': "l' = l\<lparr>weight := w, bias := b\<rparr>"
    by (auto simp: scale_linear_def ebind_eq_Inr)
  from w show "0 < n"
    by (auto simp: scale_mat_param_def split: option.splits if_splits)
  from w b show "grads_scaled n l l'"
    by (auto simp: grads_scaled_def l' scale_mat_param_def scale_vec_param_def ebind_eq_Inr
        mult.commute split: option.splits if_splits)
qed

lemma scale_linear_total:
  assumes "has_grads l" "0 < n"
  shows "\<exists>l'. scale_linear n l = Inr l'"
  using assms
  by (auto simp: has_grads_def scale_linear_def scale_mat_param_def scale_vec_param_def
      split: option.splits)

lemma scale_encoder_Inr:
  "scale_encoder n e = Inr e' \<Longrightarrow>
     enc_bn e' = enc_bn e \<and> grads_scaled n (enc_fc1 e) (enc_fc1 e')"
  by (auto simp: scale_encoder_def ebind_eq_Inr dest: scale_linear_Inr(1))

lemma emap_list_all2:
  "emap f xs = Inr ys \<Longrightarrow> (\<And>x y. f x = Inr y \<Longrightarrow> P x y) \<Longrightarrow> list_all2 P xs ys"
proof (induction xs arbitrary: ys)
  case Nil
  then show ?case by simp
next
  case (Cons x xs)
  then show ?case
    by (auto simp: ebind_eq_Inr)
qed

text \<open>
  C10. When \<open>scale_shared_grads\<close> returns, every key, selector and value extractor and
  the linear layer of every critic encoder has its old values, and each of its gradients
  is the old gradient times \<open>1 / nagents\<close>; the state encoders, the critic heads, the batch
  norms and the sizes are as before. It returns whenever there is at least one agent and
  every shared parameter has a gradient.
\<close>

theorem scale_shared_grads_frame:
  "(scale_shared_grads c = Inr c' \<longrightarrow>
      list_all2 (grads_scaled (nagents c)) (key_extractors c) (key_extractors c') \<and>
      list_all2 (grads_scaled (nagents c)) (selector_extractors c) (selector_extractors c') \<and>
      list_all2 (grads_scaled (nagents c)) (value_extractors c) (value_extractors c') \<and>
      list_all2 (\<lambda>e e'. enc_bn e' = enc_bn e \<and> grads_scaled (nagents c) (enc_fc1 e) (enc_fc1 e'))
        (critic_encoders c) (critic_encoders c') \<and>
      state_encoders c' = state_encoders c \<and> critics c' = critics c \<and>
      sa_sizes c' = sa_sizes c \<and> nagents c' = nagents c \<and> attend_heads c' = attend_heads c) \<and>
   (0 < nagents c \<and> list_all has_grads (key_extractors c) \<and>
    list_all has_grads (selector_extractors c) \<and> list_all has_grads (value_extractors c) \<and>
    list_all (\<lambda>e. has_grads (enc_fc1 e)) (critic_encoders c) \<longrightarrow>
      (\<exists>c''. scale_shared_grads c = Inr c''))"
proof (intro conjI impI)
  assume "scale_shared_grads c = Inr c'"
  then obtain ks ss vs es
    where ks: "emap (scale_linear (nagents c)) (key_extractors c) = Inr ks"
      and ss: "emap (scale_linear (nagents c)) (selector_extractors c) = Inr ss"
      and vs: "emap (scale_linear (nagents c)) (value_extractors c) = Inr vs"
      and es: "emap (scale_encoder (nagents c)) (critic_encoders c) = Inr es"
      and c': "c' = c\<lparr>key_extractors := ks, selector_extractors := ss, value_extractors := vs,
             critic_encoders := es\<rparr>"
    by (auto simp: scale_shared_grads_def ebind_eq_Inr)
  show "list_all2 (grads_scaled (nagents c)) (key_extractors c) (key_extractors c')"
    using emap_list_all2 [OF ks] scale_linear_Inr(1) by (simp add: c')
  show "list_all2 (grads_scaled (nagents c)) (selector_extractors c) (selector_extractors c')"
    using emap_list_all2 [OF ss] scale_linear_Inr(1) by (simp add: c')
  show "list_all2 (grads_scaled (nagents c)) (value_extractors c) (value_extractors c')"
    using emap_list_all2 [OF vs] scale_linear_Inr(1) by (simp add: c')
  show "list_all2 (\<lambda>e e'. enc_bn e' = enc_bn e \<and> grads_scaled (nagents c) (enc_fc1 e) (enc_fc1 e'))
        (critic_encoders c) (critic_encoders c')"
    using emap_list_all2 [OF es] scale_encoder_Inr by (simp add: c')
  show "state_encoders c' = state_encoders c" "critics c' = critics c"
    "sa_sizes c' = sa_sizes c" "nagents c' = nagents c" "attend_heads c' = attend_heads c"
    by (simp_all add: c')
next
  assume h: "0 < nagents c \<and> list_all has_grads (key_extractors c) \<and>
    list_all has_grads (selector_extractors c) \<and> list_all has_grads (value_extractors c) \<and>
    list_all (\<lambda>e. has_grads (enc_fc1 e)) (critic_encoders c)"
  have lin: "\<exists>ys. emap (scale_linear (nagents c)) ls = Inr ys \<and> length ys = length ls \<and>
      (\<forall>y\<in>set ys. True)" if "list_all has_grads ls" for ls
    using that h scale_linear_total [of _ "nagents c"]
    by (intro emap_exists) (auto simp: list_all_iff)
  have enc: "\<exists>ys. emap (scale_encoder (nagents c)) es = Inr ys \<and> length ys = length es \<and>
      (\<forall>y\<in>set ys. True)" if "list_all (\<lambda>e. has_grads (enc_fc1 e)) es" for es
  proof (intro emap_exists)
    fix e assume "e \<in> set es"
    with that have "has_grads (enc_fc1 e)"
      by (simp add: list_all_iff)
    with h obtain fc where "scale_linear (nagents c) (enc_fc1 e) = Inr fc"
      using scale_linear_total by blast
    then show "\<exists>y. scale_encoder (nagents c) e = Inr y \<and> True"
      by (simp add: scale_encoder_def)
  qed
  from h lin [of "key_extractors c"] lin [of "selector_extractors c"]
    lin [of "value_extractors c"] enc [of "critic_encoders c"]
  show "\<exists>c''. scale_shared_grads c = Inr c''"
    by (auto simp: scale_shared_grads_def)
qed

theorem scale_shared_grads_frame_witness:
  "\<exists>c'. scale_shared_grads example_critic = Inr c' \<and>
      map (\<lambda>l. grad (weight l)) (key_extractors c') = [Some (Mat 1 [[2]])] \<and>
      map (\<lambda>l. data (weight l)) (key_extractors c') = [Mat 1 [[1]]] \<and>
      map (\<lambda>e. grad (weight (enc_fc1 e))) (critic_encoders c')
        = [Some (Mat 2 [[1, 4]]), Some (Mat 2 [[1, 4]])] \<and>
      state_encoders c' = state_encoders example_critic \<and>
      critics c' = critics example_critic"
proof -
  have pre: "0 < nagents example_critic \<and> list_all has_grads (key_extractors example_critic) \<and>
    list_all has_grads (selector_extractors example_critic) \<and>
    list_all has_grads (value_extractors example_critic) \<and>
    list_all (\<lambda>e. has_grads (enc_fc1 e)) (critic_encoders example_critic)"
    by (simp add: example_critic_def Let_def has_grads_def param_of_def)
  with scale_shared_grads_frame [of example_critic] obtain c'
    where c': "scale_shared_grads example_critic = Inr c'"
    by blast
  from scale_shared_grads_frame [of example_critic c'] c'
  have ks: "list_all2 (grads_scaled (nagents example_critic)) (key_extractors example_critic)
        (key_extractors c')"
    and es: "list_all2 (\<lambda>e e'. enc_bn e' = enc_bn e \<and>
          grads_scaled (nagents example_critic) (enc_fc1 e) (enc_fc1 e'))
        (critic_encoders example_critic) (critic_encoders c')"
    and fr: "state_encoders c' = state_encoders example_critic"
      "critics c' = critics example_critic"
    by simp_all
  from ks have "map (\<lambda>l. grad (weight l)) (key_extractors c') = [Some (Mat 1 [[2]])]"
    "map (\<lambda>l. data (weight l)) (key_extractors c') = [Mat 1 [[1]]]"
    by (auto simp: example_critic_def Let_def list_all2_Cons1 grads_scaled_def param_of_def map_mat_def)
  moreover from es have "map (\<lambda>e. grad (weight (enc_fc1 e))) (critic_encoders c')
        = [Some (Mat 2 [[1, 4]]), Some (Mat 2 [[1, 4]])]"
    by (auto simp: example_critic_def Let_def list_all2_Cons1 grads_scaled_def param_of_def map_mat_def)
  ultimately show ?thesis
    using c' fr by (intro exI [of _ c']) simp
qed

section \<open>The softmax of the attention\<close>

lemma sum_list_exp_pos: "r \<noteq> [] \<Longrightarrow> 0 < sum_list (map exp (r :: real list))"
proof (induction r)
  case Nil
  then show ?case by simp
next
  case (Cons a r)
  have "0 \<le> sum_list (map exp r)"
    by (rule sum_list_nonneg) auto
  then show ?case
    by (simp add: add_pos_nonneg)
qed

lemma softmax_row_sum:
  assumes "r \<noteq> []"
  shows "sum_list (map (\<lambda>v. exp v / sum_list (map exp r)) (r :: real list)) = 1"
proof -
  let ?S = "sum_list (map exp r)"
  have "sum_list (map (\<lambda>v. exp v / ?S) r) = sum_list (map (\<lambda>v. exp v * (1 / ?S)) r)"
    by simp
  also have "\<dots> = ?S * (1 / ?S)"
    by (simp only: sum_list_mult_const)
  also have "\<dots> = 1"
    using sum_list_exp_pos [OF assms] by simp
  finally show ?thesis .
qed

lemma those_map_Some: "those (map (\<lambda>v. Some (f v)) r) = Some (map f r)"
  by (induction r) simp_all

lemma those_map_None: "those (map (\<lambda>v. None) r) = (if r = [] then Some [] else None)"
  by (cases r) simp_all

text \<open>For keys of positive width the weights are the softmax of the scaled logits.\<close>

lemma softmax_rows_scale_logits:
  assumes "0 < d"
  shows "softmax_rows (scale_logits x d) =
           Mat (ncols x)
             (map (\<lambda>r. map (\<lambda>v. Some (exp v / sum_list (map exp (map (\<lambda>u. u / sqrt (real d)) r))))
                          (map (\<lambda>u. u / sqrt (real d)) r))
                  (rows x))"
  using assms by (simp add: softmax_rows_def scale_logits_def map_mat_def those_map_Some comp_def)

text \<open>For keys of width 0 every weight is NaN.\<close>

lemma softmax_rows_scale_logits_0: "softmax_rows (scale_logits x 0) = map_mat (\<lambda>v. None) x"
  by (simp add: softmax_rows_def scale_logits_def map_mat_def those_map_None comp_def)

lemma normalised_MatI:
  assumes "\<And>r. r \<in> set rs \<Longrightarrow>
      those (f r) = Some (g r) \<and> list_all (\<lambda>p. 0 \<le> p) (g r) \<and> sum_list (g r) = 1"
  shows "normalised (Mat c (map f rs))"
  using assms by (simp add: normalised_def list_all_iff)

lemma softmax_rows_normalised:
  assumes "\<forall>r\<in>set (rows x). r \<noteq> []" and "0 < d"
  shows "normalised (softmax_rows (scale_logits x d))"
  unfolding softmax_rows_scale_logits [OF assms(2)]
proof (rule normalised_MatI
    [where g = "\<lambda>r. map (\<lambda>v. exp v / sum_list (map exp (map (\<lambda>u. u / sqrt (real d)) r)))
                          (map (\<lambda>u. u / sqrt (real d)) r)"])
  fix r
  assume "r \<in> set (rows x)"
  let ?r = "map (\<lambda>u. u / sqrt (real d)) r"
  from \<open>r \<in> set (rows x)\<close> assms(1) have ne: "?r \<noteq> []"
    by simp
  have "those (map (\<lambda>v. Some (exp v / sum_list (map exp ?r))) ?r)
      = Some (map (\<lambda>v. exp v / sum_list (map exp ?r)) ?r)"
    by (rule those_map_Some)
  moreover from sum_list_exp_pos [OF ne]
  have "list_all (\<lambda>p. 0 \<le> p) (map (\<lambda>v. exp v / sum_list (map exp ?r)) ?r)"
    by (simp add: list_all_iff)
  moreover have "sum_list (map (\<lambda>v. exp v / sum_list (map exp ?r)) ?r) = 1"
    using ne by (rule softmax_row_sum)
  ultimately show "those (map (\<lambda>v. Some (exp v / sum_list (map exp ?r))) ?r)
      = Some (map (\<lambda>v. exp v / sum_list (map exp ?r)) ?r) \<and>
    list_all (\<lambda>p. 0 \<le> p) (map (\<lambda>v. exp v / sum_list (map exp ?r)) ?r) \<and>
    sum_list (map (\<lambda>v. exp v / sum_list (map exp ?r)) ?r) = 1"
    by (intro conjI)
qed

lemma attend_logits_of_rows:
  assumes "attend_logits_of sel keys = Inr l"
  shows "keys \<noteq> []" and "ncols l = length keys" and "\<forall>r\<in>set (rows l). length r = length keys"
  using assms
  by (auto simp: attend_logits_of_def stackable_def split: if_splits option.splits list.splits)

text \<open>
  For keys of width 0 the selector has width 0 too, and every logit is 0: the division
  by \<^verbatim>\<open>np.sqrt(0)\<close> is a division of 0 by 0.
\<close>

lemma attend_logits_of_width_0:
  assumes "attend_logits_of sel keys = Inr l" and "ncols (hd keys) = 0" and "wf_mat sel"
  shows "\<forall>r\<in>set (rows l). \<forall>v\<in>set r. v = 0"
proof -
  from assms(1) have sel: "ncols sel = ncols (hd keys)" "nrows sel \<noteq> 0"
    by (auto simp: attend_logits_of_def split: if_splits)
  with assms(2,3) have "\<forall>r\<in>set (rows sel). r = []"
    by (simp add: wf_mat_def list_all_iff)
  with sel(2) have "brow sel b = []" if "b < nrows sel \<or> nrows sel = 1" for b
    using that by (auto simp: brow_def)
  moreover from assms(1) obtain B where "bdim (nrows sel) (nrows (hd keys)) = Some B"
    and l: "l = Mat (length keys) (map (\<lambda>b. map (\<lambda>k. dot (brow sel b) (brow k b)) keys) [0..<B])"
    by (auto simp: attend_logits_of_def split: if_splits option.splits)
  ultimately show ?thesis
    by (auto simp: bdim_def dot_def split: if_splits)
qed

lemma attend_normalised:
  assumes "attend a_i ks vs sel = Inr (ov, al, aw)" and "0 < ncols (hd (others a_i ks))"
  shows "normalised aw" and "ncols aw = length (others a_i ks)" and "others a_i ks \<noteq> []"
proof -
  let ?keys = "others a_i ks"
  from assms(1) have al: "attend_logits_of sel ?keys = Inr al"
    and aw: "aw = softmax_rows (scale_logits al (ncols (hd ?keys)))"
    by (auto simp: attend_def Let_def ebind_eq_Inr)
  note l = attend_logits_of_rows [OF al]
  from l(1) show "others a_i ks \<noteq> []" .
  from l(2) show "ncols aw = length (others a_i ks)"
    by (simp add: aw softmax_rows_def scale_logits_def map_mat_def)
  from l(1,3) have "\<forall>r\<in>set (rows al). r \<noteq> []"
    by auto
  then show "normalised aw"
    unfolding aw using assms(2) by (rule softmax_rows_normalised)
qed

section \<open>The keys and values of the attention\<close>

lemma others_enumerate:
  "map snd (filter (\<lambda>(j, k). j \<noteq> a) (enumerate n xs)) =
     (if a < n then xs else take (a - n) xs @ drop (Suc (a - n)) xs)"
proof (induction xs arbitrary: n)
  case Nil
  then show ?case by simp
next
  case (Cons x xs)
  show ?case
  proof (cases "a < Suc n")
    case True
    then show ?thesis
      using Cons.IH [of "Suc n"] by (cases "a = n") auto
  next
    case False
    then have "a - n = Suc (a - Suc n)"
      by simp
    with False show ?thesis
      using Cons.IH [of "Suc n"] by auto
  qed
qed

lemma others_eq: "others a xs = take a xs @ drop (Suc a) xs"
  by (simp add: others_def others_enumerate)

lemma others_update: "others a (xs[a := y]) = others a xs"
  by (simp add: others_eq)

lemma attend_others_cong:
  "others a ks' = others a ks \<Longrightarrow> others a vs' = others a vs \<Longrightarrow>
     attend a ks' vs' sel = attend a ks vs sel"
  by (simp add: attend_def)

lemma length_append_at [simp]: "length (append_at i x xss) = length xss"
  by (simp add: append_at_def)

lemma nth_append_at:
  "j < length xss \<Longrightarrow> append_at i x xss ! j = (if i = j then xss ! j @ [x] else xss ! j)"
  by (simp add: append_at_def nth_list_update)

lemma attend_agents_agree:
  assumes "\<forall>(i, b, sel)\<in>set ts. i < length agents \<and> agents ! i = b"
    and "others a ks' = others a ks" "others a vs' = others a vs"
    and "attend_agents ts ks vs st = Inr st1" "attend_agents ts ks' vs' st' = Inr st1'"
    and "agree_on a agents st st'" "attn_len (length agents) st" "attn_len (length agents) st'"
  shows "agree_on a agents st1 st1' \<and> attn_len (length agents) st1 \<and>
    attn_len (length agents) st1'"
  using assms
proof (induction ts arbitrary: st st')
  case Nil
  then show ?case by simp
next
  case (Cons t ts)
  obtain i b sel where t: "t = (i, b, sel)"
    by (cases t)
  with Cons.prems(1) have i: "i < length agents" "agents ! i = b"
    and ts: "\<forall>(i, b, sel)\<in>set ts. i < length agents \<and> agents ! i = b"
    by auto
  from Cons.prems(4) t obtain ov al aw where att: "attend b ks vs sel = Inr (ov, al, aw)"
    and rest: "attend_agents ts ks vs
       \<lparr>other_all_values = append_at i ov (other_all_values st),
        all_attend_logits = append_at i al (all_attend_logits st),
        all_attend_probs = append_at i aw (all_attend_probs st)\<rparr> = Inr st1"
      (is "attend_agents ts ks vs ?s = _")
    by (auto simp: ebind_eq_Inr)
  from Cons.prems(5) t obtain ov' al' aw' where att': "attend b ks' vs' sel = Inr (ov', al', aw')"
    and rest': "attend_agents ts ks' vs'
       \<lparr>other_all_values = append_at i ov' (other_all_values st'),
        all_attend_logits = append_at i al' (all_attend_logits st'),
        all_attend_probs = append_at i aw' (all_attend_probs st')\<rparr> = Inr st1'"
      (is "attend_agents ts ks' vs' ?s' = _")
    by (auto simp: ebind_eq_Inr)
  have same: "ov' = ov \<and> al' = al \<and> aw' = aw" if "b = a"
    using that att att' attend_others_cong [OF Cons.prems(2,3), of sel] by simp
  have len: "attn_len (length agents) ?s" "attn_len (length agents) ?s'"
    using Cons.prems(7,8) by (simp_all add: attn_len_def)
  have "agree_on a agents ?s ?s'"
    using Cons.prems(6,7,8) same i
    by (auto simp: agree_on_def attn_len_def list_all_iff nth_append_at)
  from Cons.IH [OF ts Cons.prems(2,3) rest rest' this len] show ?case .
qed

lemma attend_all_heads_agree:
  assumes "list_all2 (differ_at a) heads heads'"
    and "attend_all_heads agents heads st = Inr st1"
    and "attend_all_heads agents heads' st' = Inr st1'"
    and "agree_on a agents st st'" "attn_len (length agents) st" "attn_len (length agents) st'"
  shows "agree_on a agents st1 st1'"
  using assms
proof (induction heads heads' arbitrary: st st' rule: list_all2_induct)
  case Nil
  then show ?case by simp
next
  case (Cons h heads h' heads')
  obtain ks vs sels where h: "h = (ks, vs, sels)"
    by (cases h)
  with Cons.hyps(1) obtain ks' vs' where h': "h' = (ks', vs', sels)"
    and ok: "others a ks' = others a ks" and ov: "others a vs' = others a vs"
    by (cases h') (auto simp: differ_at_def)
  let ?ts = "zip [0..<length agents] (zip agents sels)"
  from Cons.prems(1) h obtain st2
    where ag: "attend_agents ?ts ks vs st = Inr st2"
      and rest: "attend_all_heads agents heads st2 = Inr st1"
    by (auto simp: ebind_eq_Inr)
  from Cons.prems(2) h' obtain st2'
    where ag': "attend_agents ?ts ks' vs' st' = Inr st2'"
      and rest': "attend_all_heads agents heads' st2' = Inr st1'"
    by (auto simp: ebind_eq_Inr)
  have ts: "\<forall>(i, b, sel)\<in>set ?ts. i < length agents \<and> agents ! i = b"
    by (auto simp: set_zip)
  from attend_agents_agree [OF ts ok ov ag ag' Cons.prems(3,4,5)]
  have "agree_on a agents st2 st2'" "attn_len (length agents) st2"
    "attn_len (length agents) st2'"
    by simp_all
  from Cons.IH [OF rest rest' this] show ?case .
qed

lemma attend_all_heads_excludes_own:
  assumes "list_all2 (differ_at a) heads heads'"
    and "attend_all_heads agents heads (attn_init agents) = Inr st"
    and "attend_all_heads agents heads' (attn_init agents) = Inr st'"
  shows "agree_on a agents st st'"
proof -
  have "agree_on a agents (attn_init agents) (attn_init agents)"
    by (simp add: agree_on_def list_all_iff)
  moreover have "attn_len (length agents) (attn_init agents)"
    by (simp add: attn_len_def attn_init_def)
  ultimately show ?thesis
    using attend_all_heads_agree [OF assms] by simp
qed

lemma emap_update:
  assumes "emap f xs = Inr ys" "emap f (xs[a := x]) = Inr ys'"
  shows "\<exists>y. ys' = ys[a := y]"
proof -
  from emap_length [OF assms(1)] emap_length [OF assms(2)]
  have len: "length ys = length xs" "length ys' = length xs"
    by simp_all
  have "ys' ! j = ys[a := ys' ! a] ! j" if "j < length xs" for j
  proof (cases "j = a")
    case True
    with that len show ?thesis by simp
  next
    case False
    from emap_nth [OF assms(1) that] emap_nth [OF assms(2), of j] that False
    have "ys' ! j = ys ! j"
      by simp
    with False show ?thesis
      by simp
  qed
  with len have "ys' = ys[a := ys' ! a]"
    by (intro nth_equalityI) simp_all
  then show ?thesis ..
qed

lemma emap_emap_update:
  assumes "emap (\<lambda>ext. emap (f ext) xs) exts = Inr yss"
    and "emap (\<lambda>ext. emap (f ext) (xs[a := x])) exts = Inr yss'"
  shows "list_all2 (\<lambda>ys ys'. \<exists>y. ys' = ys[a := y]) yss yss'"
proof -
  from emap_length [OF assms(1)] emap_length [OF assms(2)]
  have len: "length yss = length exts" "length yss' = length exts"
    by simp_all
  have "\<exists>y. yss' ! h = (yss ! h)[a := y]" if "h < length exts" for h
    using emap_nth [OF assms(1) that] emap_nth [OF assms(2) that] by (rule emap_update)
  with len show ?thesis
    by (simp add: list_all2_conv_all_nth)
qed

text \<open>
  C1. The attention computed for a requested agent \<open>a\<close> does not see agent \<open>a\<close>'s own
  state-action encoding: when that encoding is replaced by any other tensor and the step
  from the encodings to the attention returns in both runs, the weighted values, logits
  and weights of every head are the same at every position of the agents list that
  requests \<open>a\<close>. The keys and values that do enter are the list without position \<open>a\<close>.
\<close>

theorem attention_excludes_own:
  assumes "attention_of_encodings c sa_encodings s_encodings agents = Inr st"
    and "attention_of_encodings c (sa_encodings[a := e]) s_encodings agents = Inr st'"
    and "i < length agents" "agents ! i = a"
  shows "other_all_values st ! i = other_all_values st' ! i \<and>
         all_attend_logits st ! i = all_attend_logits st' ! i \<and>
         all_attend_probs st ! i = all_attend_probs st' ! i \<and>
         others a (ks :: mat list) = take a ks @ drop (Suc a) ks"
proof -
  let ?sels = "\<lambda>sel_ext. emap (Linear_forward sel_ext)
      (map snd (filter (\<lambda>(i, enc). i \<in> set agents) (enumerate 0 s_encodings)))"
  from assms(1) obtain K V S
    where K: "emap (\<lambda>k_ext. emap (Linear_forward k_ext) sa_encodings) (key_extractors c) = Inr K"
      and V: "emap (\<lambda>v_ext. emap (value_extractor_forward v_ext) sa_encodings)
                (value_extractors c) = Inr V"
      and S: "emap ?sels (selector_extractors c) = Inr S"
      and st: "attend_all_heads agents (zip K (zip V S)) (attn_init agents) = Inr st"
    by (auto simp: attention_of_encodings_def ebind_eq_Inr)
  from assms(2) S obtain K' V'
    where K': "emap (\<lambda>k_ext. emap (Linear_forward k_ext) (sa_encodings[a := e]))
                 (key_extractors c) = Inr K'"
      and V': "emap (\<lambda>v_ext. emap (value_extractor_forward v_ext) (sa_encodings[a := e]))
                (value_extractors c) = Inr V'"
      and st': "attend_all_heads agents (zip K' (zip V' S)) (attn_init agents) = Inr st'"
    by (auto simp: attention_of_encodings_def ebind_eq_Inr)
  note KK = emap_emap_update [OF K K']
  note VV = emap_emap_update [OF V V']
  have "list_all2 (differ_at a) (zip K (zip V S)) (zip K' (zip V' S))"
    using KK VV by (auto simp: list_all2_conv_all_nth differ_at_def others_update)
  from attend_all_heads_excludes_own [OF this st st'] assms(3,4) show ?thesis
    by (simp add: agree_on_def list_all_iff others_eq)
qed

lemmas attend_eval = attend_def others_def enumerate_eq_zip attend_logits_of_def stackable_def
  scale_logits_def xmul_def xsum_def
  same_shape_def bdim_def brow_def bget_def dot_def softmax_rows_def weighted_values_def
  map_mat_def append_at_def attn_init_def Let_def

lemma attention_of_encodings_example:
  "\<exists>c g'. AttentionCritic_init [(1, 1), (1, 1), (1, 1)] 2 False 1 (\<lambda>k. 1) = Inr (c, g') \<and>
     (\<exists>st. attention_of_encodings c
         [Mat 2 [[3, 3], [4, 4]], Mat 2 [[5, 5], [6, 6]], Mat 2 [[7, 7], [8, 8]]]
         [Mat 2 [[2, 2], [3, 3]], Mat 2 [[4, 4], [5, 5]], Mat 2 [[6, 6], [7, 7]]]
         [0, 1, 2] = Inr st) \<and>
     (\<exists>st'. attention_of_encodings c
         ([Mat 2 [[3, 3], [4, 4]], Mat 2 [[5, 5], [6, 6]], Mat 2 [[7, 7], [8, 8]]]
            [0 := Mat 2 [[9, 1], [0, 2]]])
         [Mat 2 [[2, 2], [3, 3]], Mat 2 [[4, 4], [5, 5]], Mat 2 [[6, 6], [7, 7]]]
         [0, 1, 2] = Inr st')"
  by (simp add: AttentionCritic_init_def Linear_init_def mk_encoder_def draw_mat_def draw_vec_def
      Let_def eval_nat_numeral attention_of_encodings_def Linear_forward_def in_features_def
      out_features_def bias_vec_def dot_def value_extractor_forward_def LeakyReLU_def map_mat_def
      enumerate_eq_zip attend_eval)

theorem attention_excludes_own_witness:
  "\<exists>c g' st st'. AttentionCritic_init [(1, 1), (1, 1), (1, 1)] 2 False 1 (\<lambda>k. 1) = Inr (c, g') \<and>
     attention_of_encodings c
         [Mat 2 [[3, 3], [4, 4]], Mat 2 [[5, 5], [6, 6]], Mat 2 [[7, 7], [8, 8]]]
         [Mat 2 [[2, 2], [3, 3]], Mat 2 [[4, 4], [5, 5]], Mat 2 [[6, 6], [7, 7]]]
         [0, 1, 2] = Inr st \<and>
     attention_of_encodings c
         ([Mat 2 [[3, 3], [4, 4]], Mat 2 [[5, 5], [6, 6]], Mat 2 [[7, 7], [8, 8]]]
            [0 := Mat 2 [[9, 1], [0, 2]]])
         [Mat 2 [[2, 2], [3, 3]], Mat 2 [[4, 4], [5, 5]], Mat 2 [[6, 6], [7, 7]]]
         [0, 1, 2] = Inr st' \<and>
     other_all_values st ! 0 = other_all_values st' ! 0 \<and>
     all_attend_logits st ! 0 = all_attend_logits st' ! 0 \<and>
     all_attend_probs st ! 0 = all_attend_probs st' ! 0"
proof -
  let ?sa = "[Mat 2 [[3, 3], [4, 4]], Mat 2 [[5, 5], [6, 6]], Mat 2 [[7, 7], [8, 8]]]"
  let ?s = "[Mat 2 [[2, 2], [3, 3]], Mat 2 [[4, 4], [5, 5]], Mat 2 [[6, 6], [7, 7]]]"
  from attention_of_encodings_example obtain c g' st st'
    where c: "AttentionCritic_init [(1, 1), (1, 1), (1, 1)] 2 False 1 (\<lambda>k. 1) = Inr (c, g')"
      and st: "attention_of_encodings c ?sa ?s [0, 1, 2] = Inr st"
      and st': "attention_of_encodings c (?sa[0 := Mat 2 [[9, 1], [0, 2]]]) ?s [0, 1, 2] = Inr st'"
    by (elim exE conjE)
  from attention_excludes_own [OF st st', of 0] c st st' show ?thesis
    by (intro exI [of _ c] exI [of _ g'] exI [of _ st] exI [of _ st']) simp
qed

section \<open>The attention weights of every agent and head\<close>

lemma length_others: "length (others a xs) = length (others a [0..<length xs])"
  by (simp add: others_eq)

lemma set_others: "set (others a xs) \<subseteq> set xs"
  using set_take_subset [of a xs] set_drop_subset [of "Suc a" xs] by (auto simp: others_eq)

lemma those_length: "those xs = Some ys \<Longrightarrow> length ys = length xs"
  by (induction xs arbitrary: ys) (auto split: option.splits)

lemma softmax_rows_wf: "wf_mat x \<Longrightarrow> wf_mat (softmax_rows x)"
  by (auto simp: softmax_rows_def wf_mat_def list_all_iff split: option.splits
      dest: those_length)

lemma attend_weights:
  assumes "attend a_i ks vs sel = Inr (ov, al, aw)" and "list_all (\<lambda>k. 0 < ncols k) ks"
  shows "normalised aw \<and> wf_mat aw \<and> ncols aw = length (others a_i [0..<length ks])"
proof -
  let ?keys = "others a_i ks"
  from assms(1) have al: "attend_logits_of sel ?keys = Inr al"
    and aw: "aw = softmax_rows (scale_logits al (ncols (hd ?keys)))"
    by (auto simp: attend_def Let_def ebind_eq_Inr)
  from attend_logits_of_rows(1) [OF al] have "hd ?keys \<in> set ks"
    using set_others [of a_i ks] by auto
  with assms(2) have pos: "0 < ncols (hd ?keys)"
    by (simp add: list_all_iff)
  from attend_logits_of_rows(2,3) [OF al] have "wf_mat al"
    by (simp add: wf_mat_def list_all_iff)
  then have "wf_mat aw"
    unfolding aw
    by (intro softmax_rows_wf) (simp add: scale_logits_def map_mat_def wf_mat_def list_all_iff)
  with attend_normalised(1,2) [OF assms(1) pos] length_others [of a_i ks] show ?thesis
    by simp
qed

lemma attend_agents_weights_over:
  assumes "\<forall>(i, b, sel)\<in>set ts. i < length agents \<and> agents ! i = b"
    and "attend_agents ts ks vs st = Inr st'"
    and "weights_over agents (length ks) st" "attn_len (length agents) st"
    and "list_all (\<lambda>k. 0 < ncols k) ks"
  shows "weights_over agents (length ks) st' \<and> attn_len (length agents) st'"
  using assms
proof (induction ts arbitrary: st)
  case Nil
  then show ?case by simp
next
  case (Cons t ts)
  obtain i b sel where t: "t = (i, b, sel)"
    by (cases t)
  with Cons.prems(1) have i: "i < length agents" "agents ! i = b"
    and ts: "\<forall>(i, b, sel)\<in>set ts. i < length agents \<and> agents ! i = b"
    by auto
  from Cons.prems(2) t obtain ov al aw where att: "attend b ks vs sel = Inr (ov, al, aw)"
    and rest: "attend_agents ts ks vs
       \<lparr>other_all_values = append_at i ov (other_all_values st),
        all_attend_logits = append_at i al (all_attend_logits st),
        all_attend_probs = append_at i aw (all_attend_probs st)\<rparr> = Inr st'"
      (is "attend_agents ts ks vs ?s = _")
    by (auto simp: ebind_eq_Inr)
  have len: "attn_len (length agents) ?s"
    using Cons.prems(4) by (simp add: attn_len_def)
  have "weights_over agents (length ks) ?s"
    using Cons.prems(3,4) attend_weights [OF att Cons.prems(5)] i
    by (auto simp: weights_over_def attn_len_def list_all_iff nth_append_at)
  from Cons.IH [OF ts rest this len Cons.prems(5)] show ?case .
qed

lemma attend_all_heads_weights_over:
  assumes "\<forall>(ks, vs, sels)\<in>set heads. length ks = n \<and> list_all (\<lambda>k. 0 < ncols k) ks"
    and "attend_all_heads agents heads st = Inr st'"
    and "weights_over agents n st" "attn_len (length agents) st"
  shows "weights_over agents n st' \<and> attn_len (length agents) st'"
  using assms
proof (induction heads arbitrary: st)
  case Nil
  then show ?case by simp
next
  case (Cons h heads)
  obtain ks vs sels where h: "h = (ks, vs, sels)"
    by (cases h)
  with Cons.prems(1) have n: "length ks = n" and pos: "list_all (\<lambda>k. 0 < ncols k) ks"
    and hs: "\<forall>(ks, vs, sels)\<in>set heads. length ks = n \<and> list_all (\<lambda>k. 0 < ncols k) ks"
    by auto
  let ?ts = "zip [0..<length agents] (zip agents sels)"
  from Cons.prems(2) h obtain st1
    where ag: "attend_agents ?ts ks vs st = Inr st1"
      and rest: "attend_all_heads agents heads st1 = Inr st'"
    by (auto simp: ebind_eq_Inr)
  have ts: "\<forall>(i, b, sel)\<in>set ?ts. i < length agents \<and> agents ! i = b"
    by (auto simp: set_zip)
  from attend_agents_weights_over [OF ts ag _ _ pos] Cons.prems(3,4) n
  have "weights_over agents n st1" "attn_len (length agents) st1"
    by simp_all
  from Cons.IH [OF hs rest this] show ?case .
qed

lemma attention_of_encodings_weights:
  assumes "attention_of_encodings c sa s agents = Inr st"
    and "list_all (\<lambda>k. 0 < out_features k) (key_extractors c)"
  shows "weights_over agents (length sa) st \<and> attn_len (length agents) st"
proof -
  from assms(1) obtain K V S
    where K: "emap (\<lambda>k_ext. emap (Linear_forward k_ext) sa) (key_extractors c) = Inr K"
      and st: "attend_all_heads agents (zip K (zip V S)) (attn_init agents) = Inr st"
    by (auto simp: attention_of_encodings_def ebind_eq_Inr)
  have "length ks = length sa \<and> list_all (\<lambda>k. 0 < ncols k) ks" if "ks \<in> set K" for ks
  proof -
    from that obtain h where h: "h < length K" "K ! h = ks"
      by (auto simp: in_set_conv_nth)
    with emap_length [OF K] emap_nth [OF K, of h]
    have ks: "emap (Linear_forward (key_extractors c ! h)) sa = Inr ks"
      by simp
    from h(1) emap_length [OF K] assms(2) have pos: "0 < out_features (key_extractors c ! h)"
      by (simp add: list_all_length)
    have "0 < ncols (ks ! j)" if "j < length ks" for j
    proof -
      from that emap_length [OF ks] emap_nth [OF ks, of j]
      have "Linear_forward (key_extractors c ! h) (sa ! j) = Inr (ks ! j)"
        by simp
      from Linear_forward_ncols [OF this] pos show ?thesis
        by simp
    qed
    with emap_length [OF ks] show ?thesis
      by (simp add: list_all_length)
  qed
  then have heads: "\<forall>(ks, vs, sels)\<in>set (zip K (zip V S)).
      length ks = length sa \<and> list_all (\<lambda>k. 0 < ncols k) ks"
    by (auto dest!: set_zip_leftD)
  have "weights_over agents (length sa) (attn_init agents)"
    by (simp add: weights_over_def attn_init_def list_all_iff)
  moreover have "attn_len (length agents) (attn_init agents)"
    by (simp add: attn_len_def attn_init_def)
  ultimately show ?thesis
    using attend_all_heads_weights_over [OF heads st] by simp
qed

text \<open>
  A constructed critic has key projections of width \<open>hidden_dim div attend_heads\<close>, which
  is positive as soon as \<open>hidden_dim\<close> is.
\<close>

lemma AttentionCritic_init_key_width:
  assumes "AttentionCritic_init sizes hidden_dim norm_in heads g = Inr (c, g')"
    and "0 < hidden_dim"
  shows "list_all (\<lambda>k. 0 < out_features k) (key_extractors c)"
proof -
  from assms(1) have h: "0 < heads" "hidden_dim mod heads = 0"
    by (auto simp: AttentionCritic_init_def split: if_splits)
  with assms(2) have pos: "0 < hidden_dim div heads"
    by (auto simp: div_greater_zero_iff dest: mod_0_imp_dvd dvd_imp_le)
  obtain encs crits s_encs g1
    where ag: "mk_agents sizes hidden_dim norm_in g = ((encs, crits, s_encs), g1)"
    by (metis prod_cases3 surj_pair)
  obtain ks ss vs g2
    where hd: "mk_heads heads hidden_dim (hidden_dim div heads) g1 = ((ks, ss, vs), g2)"
    by (metis prod_cases3 surj_pair)
  from assms(1) h ag hd have "key_extractors c = ks"
    by (auto simp: AttentionCritic_init_def Let_def)
  with mk_heads_shape [OF hd] pos show ?thesis
    by (simp add: list_all_iff)
qed

text \<open>
  C2 (as amended). For a critic whose key projections have a positive width (for a
  constructed critic: \<open>hidden_dim\<close> at least 1), whenever the attention part of \<open>forward\<close>
  returns, there is one list of weight tensors per requested agent, and every weight
  tensor in it (one per head) has, in every row (batch element), one entry for every
  encoded agent other than the requested one, and these entries are numbers,
  non-negative, and sum to 1.
\<close>

theorem attention_weights_normalised_pos_width:
  assumes "forward_attention c inps agents = Inr (s_encodings, st)"
    and "list_all (\<lambda>k. 0 < out_features k) (key_extractors c)"
  shows "length (all_attend_probs st) = length agents \<and>
         list_all (\<lambda>i. list_all (\<lambda>w. normalised w \<and> wf_mat w \<and>
               ncols w = length (others (agents ! i)
                            [0..<min (length (critic_encoders c)) (length inps)]))
             (all_attend_probs st ! i))
           [0..<length agents]"
proof -
  from assms(1) obtain inps' sa
    where inps': "emap (\<lambda>(s, a). cat_dim1 [s, a]) inps = Inr inps'"
      and sa: "emap (\<lambda>(encoder, inp). encoder_forward encoder inp)
               (zip (critic_encoders c) inps') = Inr sa"
      and st: "attention_of_encodings c sa s_encodings agents = Inr st"
    by (auto simp: forward_attention_def Let_def ebind_eq_Inr)
  from emap_length [OF inps'] emap_length [OF sa]
  have "length sa = min (length (critic_encoders c)) (length inps)"
    by simp
  with attention_of_encodings_weights [OF st assms(2)] show ?thesis
    by (simp add: weights_over_def attn_len_def)
qed

section \<open>The forward pass on three agents\<close>

lemmas init_eval = AttentionCritic_init_def mk_encoder_def Linear_init_def draw_mat_def
  draw_vec_def Let_def eval_nat_numeral

lemmas forward_eval = AttentionCritic_forward_def forward_attention_def
  attention_of_encodings_def cat_dim1_def
  encoder_forward_def Linear_forward_def in_features_def out_features_def bias_vec_def dot_def
  LeakyReLU_def map_mat_def py_index_def value_extractor_forward_def enumerate_eq_zip
  agent_rets_def xcritic_forward_def xLinear_forward_def xLeakyReLU_def xadd_def xmul_def xsum_def
  head_entropy_def attend_def others_def attend_logits_of_def scale_logits_def
  stackable_def same_shape_def bdim_def brow_def softmax_rows_def weighted_values_def bget_def
  append_at_def attn_init_def argmax_dim1_def gather_dim1_def

lemma forward_attention_example:
  "\<exists>c g'. AttentionCritic_init [(1, 1), (1, 1), (1, 1)] 2 False 1 (\<lambda>k. 1) = Inr (c, g') \<and>
     (\<exists>s st. forward_attention c
         [(Mat 1 [[1], [2]], Mat 1 [[1], [1]]), (Mat 1 [[3], [4]], Mat 1 [[1], [1]]),
          (Mat 1 [[5], [6]], Mat 1 [[1], [1]])] [0, 1, 2] = Inr (s, st) \<and>
        map (map ncols) (all_attend_probs st) = [[2], [2], [2]])"
  by (simp add: init_eval forward_eval)

lemma list_all_indexed:
  assumes "list_all (\<lambda>i. list_all (\<lambda>w. P w \<and> R i w) (xss ! i)) [0..<n]" "length xss = n"
  shows "list_all (list_all P) xss"
  using assms by (auto simp: list_all_length)

theorem attention_weights_normalised_pos_width_witness:
  "\<exists>c g' s st. AttentionCritic_init [(1, 1), (1, 1), (1, 1)] 2 False 1 (\<lambda>k. 1) = Inr (c, g') \<and>
     list_all (\<lambda>k. 0 < out_features k) (key_extractors c) \<and>
     forward_attention c
         [(Mat 1 [[1], [2]], Mat 1 [[1], [1]]), (Mat 1 [[3], [4]], Mat 1 [[1], [1]]),
          (Mat 1 [[5], [6]], Mat 1 [[1], [1]])] [0, 1, 2] = Inr (s, st) \<and>
     map (map ncols) (all_attend_probs st) = [[2], [2], [2]] \<and>
     list_all (list_all (\<lambda>w. normalised w \<and> wf_mat w)) (all_attend_probs st)"
proof -
  let ?inps = "[(Mat 1 [[1], [2]], Mat 1 [[1], [1]]), (Mat 1 [[3], [4]], Mat 1 [[1], [1]]),
          (Mat 1 [[5], [6]], Mat 1 [[1], [1]])] :: (mat \<times> mat) list"
  from forward_attention_example obtain c g' s st
    where c: "AttentionCritic_init [(1, 1), (1, 1), (1, 1)] 2 False 1 (\<lambda>k. 1) = Inr (c, g')"
      and f: "forward_attention c ?inps [0, 1, 2] = Inr (s, st)"
      and n: "map (map ncols) (all_attend_probs st) = [[2], [2], [2]]"
    by (elim exE conjE)
  from AttentionCritic_init_key_width [OF c]
  have pos: "list_all (\<lambda>k. 0 < out_features k) (key_extractors c)"
    by simp
  from attention_weights_normalised_pos_width [OF f pos]
  have len: "length (all_attend_probs st) = length [0 :: nat, 1, 2]"
    and all: "list_all (\<lambda>i. list_all (\<lambda>w. normalised w \<and> wf_mat w \<and>
               ncols w = length (others ([0, 1, 2] ! i)
                            [0..<min (length (critic_encoders c)) (length ?inps)]))
             (all_attend_probs st ! i))
           [0..<length [0 :: nat, 1, 2]]"
    by blast+
  have "list_all (list_all (\<lambda>w. normalised w \<and> wf_mat w)) (all_attend_probs st)"
    by (rule list_all_indexed [where R = "\<lambda>i w. ncols w = length (others ([0, 1, 2] ! i)
        [0..<min (length (critic_encoders c)) (length ?inps)])"])
      (use all len in \<open>simp_all only: conj_assoc\<close>)
  with c f n pos show ?thesis
    by (intro exI [of _ c] exI [of _ g'] exI [of _ s] exI [of _ st]) simp
qed

text \<open>
  The claim as stated fails for keys of width 0. A critic constructed with
  \<open>hidden_dim = 0\<close> has key, selector and value projections of width 0; on three agents
  and a batch of two the call returns the Q-values, no exception is raised, and every
  attention weight is NaN: the logits are divided by \<^verbatim>\<open>np.sqrt(0)\<close>. No weight tensor is
  non-negative with rows that sum to 1.
\<close>

theorem attention_weights_nan_at_width_0:
  "\<exists>c g'. AttentionCritic_init [(1, 1), (1, 1), (1, 1)] 0 False 1 (\<lambda>k. 1) = Inr (c, g') \<and>
     (\<exists>s st. forward_attention c
         [(Mat 1 [[1], [2]], Mat 1 [[1], [1]]), (Mat 1 [[3], [4]], Mat 1 [[1], [1]]),
          (Mat 1 [[5], [6]], Mat 1 [[1], [1]])] [0, 1, 2] = Inr (s, st) \<and>
        all_attend_probs st =
          [[Mat 2 [[None, None], [None, None]]], [Mat 2 [[None, None], [None, None]]],
           [Mat 2 [[None, None], [None, None]]]] \<and>
        list_all (list_all (\<lambda>w. \<not> normalised w)) (all_attend_probs st)) \<and>
     AttentionCritic_forward c
         [(Mat 1 [[1], [2]], Mat 1 [[1], [1]]), (Mat 1 [[3], [4]], Mat 1 [[1], [1]]),
          (Mat 1 [[5], [6]], Mat 1 [[1], [1]])] None True False False False
       = Inr (Many [One (Q_value (Mat 1 [[Some 1], [Some 1]])),
                    One (Q_value (Mat 1 [[Some 1], [Some 1]])),
                    One (Q_value (Mat 1 [[Some 1], [Some 1]]))])"
  by (simp add: init_eval forward_eval normalised_def)

text \<open>
  C4. For three agents the call with all agents returns one Q-value per agent, but the
  call with \<open>agents = [1]\<close> raises: the selectors are filtered by \<open>i in agents\<close> over the
  positions of \<open>s_encodings\<close>, position 0 is not in \<open>[1]\<close>, no attention is computed, and the
  critic of agent 1 receives the state encoding alone, of width \<open>hidden_dim\<close> instead of
  \<open>2 * hidden_dim\<close>.
\<close>

theorem forward_agents_1_raises:
  "\<exists>c g'. AttentionCritic_init [(1, 1), (1, 1), (1, 1)] 2 False 1 (\<lambda>k. 1) = Inr (c, g') \<and>
     AttentionCritic_forward c
         [(Mat 1 [[1], [2]], Mat 1 [[1], [1]]), (Mat 1 [[3], [4]], Mat 1 [[1], [1]]),
          (Mat 1 [[5], [6]], Mat 1 [[1], [1]])] (Some [1]) True False False False
       = Inl RuntimeError \<and>
     (\<exists>q0 q1 q2. AttentionCritic_forward c
         [(Mat 1 [[1], [2]], Mat 1 [[1], [1]]), (Mat 1 [[3], [4]], Mat 1 [[1], [1]]),
          (Mat 1 [[5], [6]], Mat 1 [[1], [1]])] None True False False False
       = Inr (Many [One (Q_value q0), One (Q_value q1), One (Q_value q2)]))"
  by (simp add: init_eval forward_eval)

subsection \<open>Agents lists that leave out a position\<close>

lemma mk_encoder_out: "mk_encoder idim h norm_in g = (e, g') \<Longrightarrow> out_features (enc_fc1 e) = h"
  by (auto simp: mk_encoder_def Let_def split: prod.splits dest: Linear_init_shape)

lemma mk_agents_shape:
  "mk_agents sizes h norm_in g = ((encs, crits, s_encs), g') \<Longrightarrow>
     (\<forall>e\<in>set s_encs. out_features (enc_fc1 e) = h) \<and>
     (\<forall>cr\<in>set crits. in_features (critic_fc1 cr) = 2 * h)"
proof (induction sizes arbitrary: g encs crits s_encs)
  case Nil
  then show ?case by simp
next
  case (Cons sa sizes)
  obtain sdim adim where sa: "sa = (sdim, adim)"
    by (cases sa)
  from Cons.prems sa obtain encoder g1 fc1 g2 fc2 g3 state_encoder g4 encs' crits' s_encs'
    where fc1: "Linear_init (2 * h) h True g1 = (fc1, g2)"
      and se: "mk_encoder sdim h norm_in g3 = (state_encoder, g4)"
      and rest: "mk_agents sizes h norm_in g4 = ((encs', crits', s_encs'), g')"
      and eq: "crits = \<lparr>critic_fc1 = fc1, critic_fc2 = fc2\<rparr> # crits'"
        "s_encs = state_encoder # s_encs'"
    by (auto simp: Let_def split: prod.splits)
  from Cons.IH [OF rest] Linear_init_shape [OF fc1] mk_encoder_out [OF se] show ?case
    by (simp add: eq)
qed

lemma encoder_forward_ncols:
  "encoder_forward e x = Inr y \<Longrightarrow> ncols y = out_features (enc_fc1 e)"
  by (auto simp: encoder_forward_def ebind_eq_Inr LeakyReLU_def map_mat_def
      dest: Linear_forward_ncols)

lemma xcritic_forward_ncols:
  "xcritic_forward cr x = Inr y \<Longrightarrow> ncols x = in_features (critic_fc1 cr)"
  by (auto simp: xcritic_forward_def ebind_eq_Inr xLinear_forward_def split: if_splits)

lemma attend_agents_untouched:
  "attend_agents ts ks vs st = Inr st' \<Longrightarrow> \<forall>(i, b, sel)\<in>set ts. i \<noteq> j \<Longrightarrow>
     other_all_values st' ! j = other_all_values st ! j"
proof (induction ts arbitrary: st)
  case Nil
  then show ?case by simp
next
  case (Cons t ts)
  obtain i b sel where t: "t = (i, b, sel)"
    by (cases t)
  from Cons.prems(1) t obtain ov al aw
    where rest: "attend_agents ts ks vs
       \<lparr>other_all_values = append_at i ov (other_all_values st),
        all_attend_logits = append_at i al (all_attend_logits st),
        all_attend_probs = append_at i aw (all_attend_probs st)\<rparr> = Inr st'"
    by (auto simp: ebind_eq_Inr)
  from Cons.prems(2) t have ne: "i \<noteq> j" and ts: "\<forall>(i, b, sel)\<in>set ts. i \<noteq> j"
    by auto
  from Cons.IH [OF rest ts] ne show ?case
    by (simp add: append_at_def)
qed

lemma attend_all_heads_untouched:
  "attend_all_heads agents heads st = Inr st' \<Longrightarrow>
     \<forall>(ks, vs, sels)\<in>set heads. length sels \<le> j \<Longrightarrow>
     other_all_values st' ! j = other_all_values st ! j"
proof (induction heads arbitrary: st)
  case Nil
  then show ?case by simp
next
  case (Cons h heads)
  obtain ks vs sels where h: "h = (ks, vs, sels)"
    by (cases h)
  from Cons.prems(1) h obtain st1
    where ag: "attend_agents (zip [0..<length agents] (zip agents sels)) ks vs st = Inr st1"
      and rest: "attend_all_heads agents heads st1 = Inr st'"
    by (auto simp: ebind_eq_Inr)
  from Cons.prems(2) h have le: "length sels \<le> j"
    and hs: "\<forall>(ks, vs, sels)\<in>set heads. length sels \<le> j"
    by auto
  have "\<forall>(i, b, sel)\<in>set (zip [0..<length agents] (zip agents sels)). i \<noteq> j"
    using le by (auto simp: set_zip)
  from attend_agents_untouched [OF ag this] Cons.IH [OF rest hs] show ?case
    by simp
qed

lemma attention_of_encodings_untouched:
  assumes "attention_of_encodings c sa s agents = Inr st"
    and "length s = length agents" "p < length agents" "p \<notin> set agents"
  shows "other_all_values st ! (length agents - 1) = []"
proof -
  let ?kept = "map snd (filter (\<lambda>(i, enc). i \<in> set agents) (enumerate 0 s))"
  let ?j = "length agents - 1"
  from assms(1) obtain K V S
    where S: "emap (\<lambda>sel_ext. emap (Linear_forward sel_ext) ?kept) (selector_extractors c) = Inr S"
      and st: "attend_all_heads agents (zip K (zip V S)) (attn_init agents) = Inr st"
    by (auto simp: attention_of_encodings_def ebind_eq_Inr)
  have "(p, s ! p) \<in> set (enumerate 0 s)"
    using assms(2,3) by (simp add: in_set_enumerate_eq)
  moreover have "\<not> (case (p, s ! p) of (i, enc) \<Rightarrow> i \<in> set agents)"
    using assms(4) by simp
  ultimately have "length (filter (\<lambda>(i, enc). i \<in> set agents) (enumerate 0 s))
      < length (enumerate 0 s)"
    by (rule length_filter_less)
  with assms(2) have kept: "length ?kept \<le> ?j"
    by simp
  have "length sels \<le> ?j" if "sels \<in> set S" for sels
  proof -
    from that obtain h where h: "h < length S" "S ! h = sels"
      by (auto simp: in_set_conv_nth)
    with emap_length [OF S] emap_nth [OF S, of h]
    have "emap (Linear_forward (selector_extractors c ! h)) ?kept = Inr sels"
      by simp
    from emap_length [OF this] kept show ?thesis
      by simp
  qed
  then have "\<forall>(ks, vs, sels)\<in>set (zip K (zip V S)). length sels \<le> ?j"
    by (auto dest!: set_zip_rightD)
  from attend_all_heads_untouched [OF st this] assms(3) show ?thesis
    by (simp add: attn_init_def)
qed

lemma forward_attention_s_encodings:
  assumes "forward_attention c inps agents = Inr (s, st)"
  shows "length s = length agents"
    and "\<forall>i<length agents. agents ! i < length (state_encoders c) \<and>
           ncols (s ! i) = out_features (enc_fc1 (state_encoders c ! (agents ! i)))"
proof -
  let ?f = "\<lambda>a_i. ebind (py_index (state_encoders c) a_i) (\<lambda>enc.
                          ebind (py_index (map fst inps) a_i) (\<lambda>s. encoder_forward enc s))"
  from assms have s: "emap ?f agents = Inr s"
    by (auto simp: forward_attention_def Let_def ebind_eq_Inr)
  from emap_length [OF s] show "length s = length agents" .
  show "\<forall>i<length agents. agents ! i < length (state_encoders c) \<and>
           ncols (s ! i) = out_features (enc_fc1 (state_encoders c ! (agents ! i)))"
  proof (intro allI impI)
    fix i assume "i < length agents"
    from emap_nth [OF s this] show "agents ! i < length (state_encoders c) \<and>
           ncols (s ! i) = out_features (enc_fc1 (state_encoders c ! (agents ! i)))"
      by (auto simp: ebind_eq_Inr py_index_def split: if_splits dest: encoder_forward_ncols)
  qed
qed

lemma forward_attention_untouched:
  assumes "forward_attention c inps agents = Inr (s, st)"
    and "p < length agents" "p \<notin> set agents"
  shows "other_all_values st ! (length agents - 1) = []"
proof -
  from assms(1) obtain sa where "attention_of_encodings c sa s agents = Inr st"
    by (auto simp: forward_attention_def Let_def ebind_eq_Inr)
  from attention_of_encodings_untouched [OF this forward_attention_s_encodings(1) [OF assms(1)]
      assms(2,3)]
  show ?thesis .
qed

text \<open>
  The same defect in general: whenever some position of the agents list is not itself
  among the requested agents, the last requested agent gets no attention and the call
  raises, whatever the inputs.
\<close>

lemma AttentionCritic_forward_position_not_requested:
  assumes init: "AttentionCritic_init sizes hidden_dim norm_in heads g = Inr (c, g')"
    and h: "0 < hidden_dim"
    and p: "p < length agents" "p \<notin> set agents"
  shows "\<exists>e. AttentionCritic_forward c inps (Some agents) rq raq reg ra = Inl e"
proof (rule ccontr)
  assume "\<not> ?thesis"
  then obtain res where "AttentionCritic_forward c inps (Some agents) rq raq reg ra = Inr res"
    by (cases "AttentionCritic_forward c inps (Some agents) rq raq reg ra") auto
  then obtain s st all_rets
    where fa: "forward_attention c inps agents = Inr (s, st)"
      and rets: "emap (agent_rets c (map snd inps) s st rq raq reg ra) (enumerate 0 agents)
          = Inr all_rets"
    by (auto simp: AttentionCritic_forward_def Let_def ebind_eq_Inr)
  let ?j = "length agents - 1"
  let ?a = "agents ! ?j"
  from p(1) have j: "?j < length agents"
    by simp
  from init obtain encs crits s_encs g1
    where ag: "mk_agents sizes hidden_dim norm_in g = ((encs, crits, s_encs), g1)"
      and c: "critics c = crits" "state_encoders c = s_encs"
    by (auto simp: AttentionCritic_init_def Let_def split: if_splits prod.splits)
  note sh = mk_agents_shape [OF ag]
  from forward_attention_s_encodings(2) [OF fa] j
  have a: "?a < length (state_encoders c)"
    and w: "ncols (s ! ?j) = out_features (enc_fc1 (state_encoders c ! ?a))"
    by simp_all
  from a sh c have "out_features (enc_fc1 (state_encoders c ! ?a)) = hidden_dim"
    by simp
  with w have w1: "ncols (s ! ?j) = hidden_dim"
    by simp
  from emap_nth [OF rets, of ?j] j
  have "agent_rets c (map snd inps) s st rq raq reg ra (?j, ?a) = Inr (all_rets ! ?j)"
    by (simp add: nth_enumerate_eq)
  with forward_attention_untouched [OF fa p]
  obtain all_q where "?a < length (critics c)"
    and "xcritic_forward (critics c ! ?a) (map_mat Some (s ! ?j)) = Inr all_q"
    by (auto simp: agent_rets_def ebind_eq_Inr cat_dim1_def py_index_def split: if_splits)
  with xcritic_forward_ncols sh c have "ncols (map_mat Some (s ! ?j)) = 2 * hidden_dim"
    by fastforce
  then have "ncols (s ! ?j) = 2 * hidden_dim"
    by (simp add: map_mat_def)
  with w1 h show False
    by simp
qed

section \<open>The joint input of the selective attention critic\<close>

lemma list_all2_map_eq: "list_all2 (\<lambda>x y. g y = f x) xs ys \<Longrightarrow> map g ys = map f xs"
  by (induction xs ys rule: list_all2_induct) simp_all

lemma cat_pairs_ncols:
  assumes "emap (\<lambda>(s, a). cat_dim1 [s, a]) inps = Inr inps'"
  shows "map ncols inps' = map (\<lambda>(s, a). ncols s + ncols a) inps"
proof -
  have "ncols y = (case x of (s, a) \<Rightarrow> ncols s + ncols a)"
    if "(case x of (s, a) \<Rightarrow> cat_dim1 [s, a]) = Inr y" for x y
    using that cat_dim1_Inr [of "[fst x, snd x]" y] by (cases x) simp
  from emap_list_all2 [OF assms, of "\<lambda>x y. ncols y = (case x of (s, a) \<Rightarrow> ncols s + ncols a)"] this
  show ?thesis
    by (intro list_all2_map_eq) blast
qed

lemma sac_agent_rets_Inr:
  assumes "sac_agent_rets c actions inps' rq raq reg a_i = Inr r"
  shows "\<exists>critic_in all_q. joint_input inps' = Inr critic_in \<and> a_i < length (sac_critics c) \<and>
           CriticNetwork_forward (sac_critics c ! a_i) critic_in = Inr all_q"
  using assms
  by (auto simp: sac_agent_rets_def ebind_eq_Inr py_index_def split: if_splits)

text \<open>
  C6. Whenever \<open>SelectiveAttentionCritic.forward\<close> returns for a non-empty list of
  agents, there is one tensor, the concatenation of all agents' (state, action) pairs and
  as wide as the sum of all their widths, that the critic network of every requested agent
  was applied to.
\<close>

theorem SelectiveAttentionCritic_forward_joint_input:
  assumes "SelectiveAttentionCritic_forward c inps agents_arg rq raq reg = Inr res"
    and "agents = (case agents_arg of None \<Rightarrow> [0..<sac_nagents c] | Some ags \<Rightarrow> ags)"
    and "agents \<noteq> []"
  shows "\<exists>inps' critic_in.
           emap (\<lambda>(s, a). cat_dim1 [s, a]) inps = Inr inps' \<and>
           joint_input inps' = Inr critic_in \<and>
           ncols critic_in = (\<Sum>(s, a)\<leftarrow>inps. ncols s + ncols a) \<and>
           list_all (\<lambda>a_i. a_i < length (sac_critics c) \<and>
               (\<exists>all_q. CriticNetwork_forward (sac_critics c ! a_i) critic_in = Inr all_q))
             agents"
proof -
  from assms(1,2) obtain inps' all_rets
    where inps': "emap (\<lambda>(s, a). cat_dim1 [s, a]) inps = Inr inps'"
      and rets: "emap (sac_agent_rets c (map snd inps) inps' rq raq reg) agents = Inr all_rets"
    by (auto simp: SelectiveAttentionCritic_forward_def Let_def ebind_eq_Inr)
  from assms(3) have "0 < length agents"
    by simp
  from emap_nth [OF rets this] sac_agent_rets_Inr obtain critic_in
    where ci: "joint_input inps' = Inr critic_in"
    by blast
  have "ncols critic_in = sum_list (map ncols inps')"
    using ci cat_dim1_Inr [of inps' critic_in] by (simp add: joint_input_def)
  then have w: "ncols critic_in = (\<Sum>(s, a)\<leftarrow>inps. ncols s + ncols a)"
    by (simp add: cat_pairs_ncols [OF inps'])
  have "a_i < length (sac_critics c) \<and>
      (\<exists>all_q. CriticNetwork_forward (sac_critics c ! a_i) critic_in = Inr all_q)"
    if "a_i \<in> set agents" for a_i
  proof -
    from that obtain k where k: "k < length agents" "agents ! k = a_i"
      by (auto simp: in_set_conv_nth)
    from emap_nth [OF rets k(1)] k(2) sac_agent_rets_Inr [of c "map snd inps" inps' rq raq reg a_i]
    show ?thesis
      using ci by auto
  qed
  then have "list_all (\<lambda>a_i. a_i < length (sac_critics c) \<and>
               (\<exists>all_q. CriticNetwork_forward (sac_critics c ! a_i) critic_in = Inr all_q))
             agents"
    by (simp add: list_all_iff)
  with inps' ci w show ?thesis
    by blast
qed

lemmas sac_eval = SelectiveAttentionCritic_init_def SelectiveAttentionNetwork_init_def
  AttentionNetwork_init_def mk_strain_def Linear_init_def draw_mat_def draw_vec_def Let_def
  eval_nat_numeral SelectiveAttentionCritic_forward_def sac_agent_rets_def joint_input_def
  cat_dim1_def py_index_def CriticNetwork_forward_def SelectiveAttentionNetwork_forward_def
  selector_scores_def strain_forward_def Linear_forward_def in_features_def out_features_def
  bias_vec_def dot_def relu_def map_mat_def Softmax_dim0_def scored_out_def slice_col_def
  repeat_cols_def broadcast2_def bdim_def bget_def py_sum_def argmax_dim1_def gather_dim1_def
  AttentionNetwork_forward_def stack_sum0_def same_shape_def

lemma SelectiveAttentionCritic_forward_example:
  "\<exists>c g'. SelectiveAttentionCritic_init [(1, 1), (1, 1)] [2] [1] 3 1 True (\<lambda>k. 1) = Inr (c, g') \<and>
     (\<exists>q0 q1. SelectiveAttentionCritic_forward c
        [(Mat 1 [[1], [2]], Mat 1 [[1], [1]]), (Mat 1 [[3], [4]], Mat 1 [[1], [1]])]
        None True False False = Inr (Many [One (Q_value q0), One (Q_value q1)]))"
  by (simp add: sac_eval)

theorem SelectiveAttentionCritic_forward_joint_input_witness:
  "\<exists>c g' inps' critic_in.
     SelectiveAttentionCritic_init [(1, 1), (1, 1)] [2] [1] 3 1 True (\<lambda>k. 1) = Inr (c, g') \<and>
     emap (\<lambda>(s, a). cat_dim1 [s, a])
        [(Mat 1 [[1], [2]], Mat 1 [[1], [1]]), (Mat 1 [[3], [4]], Mat 1 [[1], [1]])] = Inr inps' \<and>
     joint_input inps' = Inr critic_in \<and> ncols critic_in = 4 \<and>
     (\<exists>q0. CriticNetwork_forward (sac_critics c ! 0) critic_in = Inr q0) \<and>
     (\<exists>q1. CriticNetwork_forward (sac_critics c ! 1) critic_in = Inr q1)"
proof -
  let ?inps = "[(Mat 1 [[1], [2]], Mat 1 [[1], [1]]), (Mat 1 [[3], [4]], Mat 1 [[1], [1]])]"
  from SelectiveAttentionCritic_forward_example obtain c g' res
    where c: "SelectiveAttentionCritic_init [(1, 1), (1, 1)] [2] [1] 3 1 True (\<lambda>k. 1) = Inr (c, g')"
      and f: "SelectiveAttentionCritic_forward c ?inps None True False False = Inr res"
    by (elim exE conjE)
  from c have n: "sac_nagents c = 2"
    by (auto simp: SelectiveAttentionCritic_init_def Let_def ebind_eq_Inr)
  have ag: "[0, 1] = (case None of None \<Rightarrow> [0..<sac_nagents c] | Some ags \<Rightarrow> ags)"
    by (simp add: n eval_nat_numeral)
  from SelectiveAttentionCritic_forward_joint_input [OF f ag] obtain inps' critic_in
    where r: "emap (\<lambda>(s, a). cat_dim1 [s, a]) ?inps = Inr inps'"
      "joint_input inps' = Inr critic_in"
      "ncols critic_in = (\<Sum>(s, a)\<leftarrow>?inps. ncols s + ncols a)"
      "list_all (\<lambda>a_i. a_i < length (sac_critics c) \<and>
               (\<exists>all_q. CriticNetwork_forward (sac_critics c ! a_i) critic_in = Inr all_q))
             [0, 1]"
    by auto
  from r(3) have "ncols critic_in = 4"
    by simp
  with c r(1,2,4) show ?thesis
    by (intro exI [of _ c] exI [of _ g'] exI [of _ inps'] exI [of _ critic_in]) simp
qed

end
